theory Spec2Isabelle
  imports Main
begin

section \<open>Python strings\<close>

text \<open>
  A Python \<open>str\<close> is a sequence of Unicode code points, and \<open>len\<close> counts code points.
  A string is therefore a list of code points; \<open>lit\<close> turns an ASCII literal into one.
\<close>

type_synonym pystr = "nat list"

definition lit :: "string \<Rightarrow> pystr" where
  "lit s = map of_char s"

text \<open>
  The code points that \<open>str.split()\<close>, \<open>str.strip()\<close> and the pattern \<open>\s\<close> of \<open>re\<close> (on
  \<open>str\<close>) treat as whitespace: U+0009..U+000D, U+001C..U+0020, U+0085, U+00A0, U+1680,
  U+2000..U+200A, U+2028, U+2029, U+202F, U+205F, U+3000.
\<close>

definition isspace :: "nat \<Rightarrow> bool" where
  "isspace c \<longleftrightarrow>
     (9 \<le> c \<and> c \<le> 13) \<or> (28 \<le> c \<and> c \<le> 32) \<or> c = 133 \<or> c = 160 \<or> c = 5760 \<or>
     (8192 \<le> c \<and> c \<le> 8202) \<or> c = 8232 \<or> c = 8233 \<or> c = 8239 \<or> c = 8287 \<or> c = 12288"

text \<open>\<open>s.split()\<close>: the maximal runs of non-whitespace, in order; \<open>w\<close> is the run being read.\<close>

fun split_acc :: "pystr \<Rightarrow> pystr \<Rightarrow> pystr list" where
  "split_acc w [] = (if w = [] then [] else [w])"
| "split_acc w (c # cs) =
     (if isspace c then (if w = [] then split_acc [] cs else w # split_acc [] cs)
      else split_acc (w @ [c]) cs)"

definition split :: "pystr \<Rightarrow> pystr list" where
  "split s = split_acc [] s"

text \<open>A word as \<open>split\<close> returns it: non-empty and free of whitespace.\<close>

definition is_word :: "pystr \<Rightarrow> bool" where
  "is_word w \<longleftrightarrow> w \<noteq> [] \<and> (\<forall>c\<in>set w. \<not> isspace c)"

text \<open>\<open>sep.join(xs)\<close>.\<close>

fun join :: "pystr \<Rightarrow> pystr list \<Rightarrow> pystr" where
  "join sep [] = []"
| "join sep [x] = x"
| "join sep (x # y # ys) = x @ sep @ join sep (y # ys)"

text \<open>\<open>s.strip()\<close>, \<open>s.startswith(p)\<close>, \<open>s.endswith(p)\<close>.\<close>

definition strip :: "pystr \<Rightarrow> pystr" where
  "strip s = rev (dropWhile isspace (rev (dropWhile isspace s)))"

definition startswith :: "pystr \<Rightarrow> pystr \<Rightarrow> bool" where
  "startswith s p \<longleftrightarrow> take (length p) s = p"

definition endswith :: "pystr \<Rightarrow> pystr \<Rightarrow> bool" where
  "endswith s p \<longleftrightarrow> length p \<le> length s \<and> drop (length s - length p) s = p"

section \<open>Text chunker\<close>

text \<open>
  \<open>chunk_text\<close> (lines 24--38). \<open>chunk_loop\<close> is the \<open>for w in words\<close> loop followed by the
  final flush, with the loop variables \<open>chunks\<close>, \<open>buf\<close> and \<open>size\<close> (here \<open>sz\<close>) as
  arguments.
  \<open>target_tokens\<close> is a Python \<open>int\<close>.
\<close>

fun chunk_loop :: "int \<Rightarrow> pystr list \<Rightarrow> pystr list \<Rightarrow> int \<Rightarrow> pystr list \<Rightarrow> pystr list" where
  "chunk_loop chunk_size chunks buf sz [] =
     (if buf \<noteq> [] then chunks @ [join (lit '' '') buf] else chunks)"
| "chunk_loop chunk_size chunks buf sz (w # ws) =
     (if sz + (int (length w) + 1) \<ge> chunk_size
      then chunk_loop chunk_size (chunks @ [join (lit '' '') (buf @ [w])]) [] 0 ws
      else chunk_loop chunk_size chunks (buf @ [w]) (sz + (int (length w) + 1)) ws)"

definition chunk_text :: "pystr \<Rightarrow> int \<Rightarrow> pystr list" where
  "chunk_text s target_tokens = chunk_loop (target_tokens * 4) [] [] 0 (split s)"

section \<open>Errors and JSON values\<close>

text \<open>
  The exceptions the script can raise. \<open>JSONDecodeError\<close> is the decoder's (a subclass of
  \<open>ValueError\<close>); \<open>ValueError\<close> is the script's own "Model returned empty output";
  \<open>External\<close> stands for whatever a collaborator (PDF reader, remote model, file system)
  raises. \<open>OutOfFuel\<close> is not a Python exception: it is the result of the decoder's model
  when its recursion budget is used up, which never happens (see \<open>json_loads_fuel\<close>).
\<close>

datatype error =
    ValueError
  | JSONDecodeError
  | KeyError pystr
  | TypeError
  | AttributeError
  | SystemExit
  | External pystr
  | OutOfFuel

text \<open>
  What \<open>json.loads\<close> returns. A \<open>dict\<close> keeps its keys in insertion order, so it is an
  association list with distinct keys. A \<open>float\<close> is kept as the numeral that was read;
  its IEEE value is not interpreted.
\<close>

datatype json =
    JNull
  | JBool bool
  | JInt int
  | JFloat pystr
  | JStr pystr
  | JArr "json list"
  | JObj "(pystr \<times> json) list"

text \<open>\<open>d[k] = v\<close> on a dict: an existing key keeps its place, a new key goes last.\<close>

fun dict_set :: "('k \<times> 'v) list \<Rightarrow> 'k \<Rightarrow> 'v \<Rightarrow> ('k \<times> 'v) list" where
  "dict_set [] k v = [(k, v)]"
| "dict_set ((k', v') # d) k v = (if k' = k then (k, v) # d else (k', v') # dict_set d k v)"

text \<open>
  \<open>x[k]\<close> for a string key \<open>k\<close>: a dict without the key raises \<open>KeyError\<close>, anything that is
  not a dict raises \<open>TypeError\<close>. \<open>x.items()\<close> raises \<open>AttributeError\<close> on anything but a dict.
\<close>

fun subscript :: "json \<Rightarrow> pystr \<Rightarrow> error + json" where
  "subscript (JObj d) k = (case map_of d k of None \<Rightarrow> Inl (KeyError k) | Some v \<Rightarrow> Inr v)"
| "subscript _ k = Inl TypeError"

fun items :: "json \<Rightarrow> error + (pystr \<times> json) list" where
  "items (JObj d) = Inr d"
| "items _ = Inl AttributeError"

section \<open>The JSON decoder\<close>

text \<open>
  \<open>json.loads\<close> of the standard library on a \<open>str\<close>, with its default settings (strict
  strings, \<open>NaN\<close> and \<open>Infinity\<close> accepted). Every failure is a \<open>JSONDecodeError\<close>; messages
  and positions are not kept. The interpreter's resource limits (recursion depth, the
  digit limit of \<open>int\<close>) are not modelled.
\<close>

definition json_ws :: "nat \<Rightarrow> bool" where
  "json_ws c \<longleftrightarrow> c = 32 \<or> c = 9 \<or> c = 10 \<or> c = 13"

definition is_digit :: "nat \<Rightarrow> bool" where
  "is_digit c \<longleftrightarrow> 48 \<le> c \<and> c \<le> 57"

definition hex_digit :: "nat \<Rightarrow> nat option" where
  "hex_digit c =
     (if 48 \<le> c \<and> c \<le> 57 then Some (c - 48)
      else if 97 \<le> c \<and> c \<le> 102 then Some (c - 87)
      else if 65 \<le> c \<and> c \<le> 70 then Some (c - 55)
      else None)"

text \<open>The four hexadecimal digits of a \<open>\uXXXX\<close> escape.\<close>

definition decode_uXXXX :: "nat \<Rightarrow> nat \<Rightarrow> nat \<Rightarrow> nat \<Rightarrow> nat option" where
  "decode_uXXXX a b c d =
     (case (hex_digit a, hex_digit b, hex_digit c, hex_digit d) of
        (Some x, Some y, Some z, Some w) \<Rightarrow> Some (((x * 16 + y) * 16 + z) * 16 + w)
      | _ \<Rightarrow> None)"

text \<open>The character an escape \<open>\e\<close> stands for, \<open>e\<close> other than \<open>u\<close>.\<close>

definition backslash :: "nat \<Rightarrow> nat option" where
  "backslash e =
     (if e = 34 then Some 34 else if e = 92 then Some 92 else if e = 47 then Some 47
      else if e = 98 then Some 8 else if e = 102 then Some 12 else if e = 110 then Some 10
      else if e = 114 then Some 13 else if e = 116 then Some 9 else None)"

text \<open>
  \<open>scanstring\<close>: the input stands after the opening quote; the result is the decoded
  string and the input after the closing quote. Code 34 is the double quote, 92 the
  backslash, 117 the letter \<open>u\<close>. A high surrogate followed by an escaped low surrogate
  is joined into one code point.
\<close>

fun scanstring :: "pystr \<Rightarrow> pystr \<Rightarrow> error + (pystr \<times> pystr)" where
  "scanstring acc [] = Inl JSONDecodeError"
| "scanstring acc (c # r) =
     (if c = 34 then Inr (acc, r)
      else if c = 92 then
        (case r of
           [] \<Rightarrow> Inl JSONDecodeError
         | e # r1 \<Rightarrow>
             if e \<noteq> 117 then
               (case backslash e of
                  None \<Rightarrow> Inl JSONDecodeError
                | Some x \<Rightarrow> scanstring (acc @ [x]) r1)
             else
               (case r1 of
                  h1 # h2 # h3 # h4 # r2 \<Rightarrow>
                    (case decode_uXXXX h1 h2 h3 h4 of
                       None \<Rightarrow> Inl JSONDecodeError
                     | Some uni \<Rightarrow>
                         if 55296 \<le> uni \<and> uni \<le> 56319 then
                           (case r2 of
                              b # u # r3 \<Rightarrow>
                                if b = 92 \<and> u = 117 then
                                  (case r3 of
                                     l1 # l2 # l3 # l4 # r4 \<Rightarrow>
                                       (case decode_uXXXX l1 l2 l3 l4 of
                                          None \<Rightarrow> Inl JSONDecodeError
                                        | Some uni2 \<Rightarrow>
                                            if 56320 \<le> uni2 \<and> uni2 \<le> 57343
                                            then scanstring
                                              (acc @ [65536 + ((uni - 55296) * 1024 + (uni2 - 56320))]) r4
                                            else scanstring (acc @ [uni]) r2)
                                   | _ \<Rightarrow> Inl JSONDecodeError)
                                else scanstring (acc @ [uni]) r2
                            | _ \<Rightarrow> scanstring (acc @ [uni]) r2)
                         else scanstring (acc @ [uni]) r2)
                | _ \<Rightarrow> Inl JSONDecodeError))
      else if c < 32 then Inl JSONDecodeError
      else scanstring (acc @ [c]) r)"

text \<open>
  A number: \<open>-?(0|[1-9][0-9]*)(\.[0-9]+)?([eE][-+]?[0-9]+)?\<close>, the longest match at the
  start of the input. With a fraction or an exponent it is a float, otherwise an int.
\<close>

definition int_of_digits :: "pystr \<Rightarrow> int" where
  "int_of_digits ds = foldl (\<lambda>a d. 10 * a + (int d - 48)) 0 ds"

definition match_int :: "pystr \<Rightarrow> (pystr \<times> pystr) option" where
  "match_int s =
     (let (sign, r) = (case s of c # r \<Rightarrow> if c = 45 then ([c], r) else ([], s) | [] \<Rightarrow> ([], s)) in
      case r of
        [] \<Rightarrow> None
      | c # r' \<Rightarrow>
          if c = 48 then Some (sign @ [c], r')
          else if 49 \<le> c \<and> c \<le> 57 then Some (sign @ takeWhile is_digit r, dropWhile is_digit r)
          else None)"

definition match_frac :: "pystr \<Rightarrow> pystr \<times> pystr" where
  "match_frac s =
     (case s of
        c # d # r \<Rightarrow>
          if c = 46 \<and> is_digit d then (c # takeWhile is_digit (d # r), dropWhile is_digit (d # r))
          else ([], s)
      | _ \<Rightarrow> ([], s))"

definition match_exp :: "pystr \<Rightarrow> pystr \<times> pystr" where
  "match_exp s =
     (case s of
        [] \<Rightarrow> ([], s)
      | c # r \<Rightarrow>
          if c = 101 \<or> c = 69 then
            (let (sign, r') = (case r of x # t \<Rightarrow> if x = 45 \<or> x = 43 then ([x], t) else ([], r)
                                       | [] \<Rightarrow> ([], r)) in
             if takeWhile is_digit r' \<noteq> []
             then (c # sign @ takeWhile is_digit r', dropWhile is_digit r')
             else ([], s))
          else ([], s))"

definition match_number :: "pystr \<Rightarrow> (json \<times> pystr) option" where
  "match_number s =
     (case match_int s of
        None \<Rightarrow> None
      | Some (i, r) \<Rightarrow>
          (let (f, r1) = match_frac r; (e, r2) = match_exp r1 in
           if f = [] \<and> e = [] then
             Some (JInt (case i of c # ds \<Rightarrow> if c = 45 then - int_of_digits ds else int_of_digits i
                                  | [] \<Rightarrow> 0), r2)
           else Some (JFloat (i @ f @ e), r2)))"

text \<open>
  \<open>scan_once\<close> reads one value at the start of the input and returns it with the rest of
  the input. \<open>parse_object\<close> and \<open>parse_array\<close> are the loops over the members of an object
  and the elements of an array, entered after the opening bracket and the whitespace
  behind it. A repeated key keeps its first place and its last value. The first argument
  bounds the number of nested calls.
\<close>

fun scan_once :: "nat \<Rightarrow> pystr \<Rightarrow> error + (json \<times> pystr)"
  and parse_object :: "nat \<Rightarrow> (pystr \<times> json) list \<Rightarrow> pystr \<Rightarrow> error + (json \<times> pystr)"
  and parse_array :: "nat \<Rightarrow> json list \<Rightarrow> pystr \<Rightarrow> error + (json \<times> pystr)" where
  "scan_once 0 s = Inl OutOfFuel"
| "scan_once (Suc n) [] = Inl JSONDecodeError"
| "scan_once (Suc n) (c # r) =
     (if c = 34 then
        (case scanstring [] r of Inl e \<Rightarrow> Inl e | Inr (x, r') \<Rightarrow> Inr (JStr x, r'))
      else if c = 123 then
        (case dropWhile json_ws r of
           [] \<Rightarrow> Inl JSONDecodeError
         | c' # r' \<Rightarrow> if c' = 125 then Inr (JObj [], r') else parse_object n [] (c' # r'))
      else if c = 91 then
        (case dropWhile json_ws r of
           [] \<Rightarrow> Inl JSONDecodeError
         | c' # r' \<Rightarrow> if c' = 93 then Inr (JArr [], r') else parse_array n [] (c' # r'))
      else if startswith (c # r) (lit ''null'') then Inr (JNull, drop 4 (c # r))
      else if startswith (c # r) (lit ''true'') then Inr (JBool True, drop 4 (c # r))
      else if startswith (c # r) (lit ''false'') then Inr (JBool False, drop 5 (c # r))
      else if startswith (c # r) (lit ''NaN'') then Inr (JFloat (lit ''NaN''), drop 3 (c # r))
      else if startswith (c # r) (lit ''Infinity'')
        then Inr (JFloat (lit ''Infinity''), drop 8 (c # r))
      else if startswith (c # r) (lit ''-Infinity'')
        then Inr (JFloat (lit ''-Infinity''), drop 9 (c # r))
      else (case match_number (c # r) of None \<Rightarrow> Inl JSONDecodeError | Some x \<Rightarrow> Inr x))"
| "parse_object 0 pairs s = Inl OutOfFuel"
| "parse_object (Suc n) pairs [] = Inl JSONDecodeError"
| "parse_object (Suc n) pairs (c # r) =
     (if c \<noteq> 34 then Inl JSONDecodeError
      else
        (case scanstring [] r of
           Inl e \<Rightarrow> Inl e
         | Inr (key, r1) \<Rightarrow>
             (case dropWhile json_ws r1 of
                [] \<Rightarrow> Inl JSONDecodeError
              | c1 # r2 \<Rightarrow>
                  if c1 \<noteq> 58 then Inl JSONDecodeError
                  else
                    (case scan_once n (dropWhile json_ws r2) of
                       Inl e \<Rightarrow> Inl e
                     | Inr (v, r3) \<Rightarrow>
                         (case dropWhile json_ws r3 of
                            [] \<Rightarrow> Inl JSONDecodeError
                          | c2 # r4 \<Rightarrow>
                              if c2 = 125 then Inr (JObj (dict_set pairs key v), r4)
                              else if c2 = 44
                              then parse_object n (dict_set pairs key v) (dropWhile json_ws r4)
                              else Inl JSONDecodeError)))))"
| "parse_array 0 vals s = Inl OutOfFuel"
| "parse_array (Suc n) vals s =
     (case scan_once n s of
        Inl e \<Rightarrow> Inl e
      | Inr (v, r) \<Rightarrow>
          (case dropWhile json_ws r of
             [] \<Rightarrow> Inl JSONDecodeError
           | c # r1 \<Rightarrow>
               if c = 93 then Inr (JArr (vals @ [v]), r1)
               else if c = 44 then parse_array n (vals @ [v]) (dropWhile json_ws r1)
               else Inl JSONDecodeError))"

text \<open>
  \<open>json.loads(s)\<close>: a leading byte-order mark (U+FEFF) is refused; whitespace around the
  value is skipped; anything else after the value is an error ("Extra data"). The
  recursion budget, twice the length of the text and one more, is never used up
  (\<open>json_loads_fuel\<close>): every call consumes a character, and the loop over the members
  of an object or the elements of an array spends one more call for each.
\<close>

definition json_loads :: "pystr \<Rightarrow> error + json" where
  "json_loads s =
     (if startswith s [65279] then Inl JSONDecodeError
      else
        (case scan_once (Suc (length s + length s)) (dropWhile json_ws s) of
           Inl e \<Rightarrow> Inl e
         | Inr (v, r) \<Rightarrow> if dropWhile json_ws r = [] then Inr v else Inl JSONDecodeError))"

section \<open>Response parser\<close>

text \<open>
  \<open>re.sub(r"^```json\s*|\s*```$", "", s, flags=re.S)\<close>. The first alternative can only
  match at the start: the opening fence and the whitespace behind it. The second matches
  once, at the end: the closing fence with the whitespace before it, where \<open>$\<close> stands at
  the end of the string or before a final newline. Code 96 is the backquote.
\<close>

definition rstrip :: "pystr \<Rightarrow> pystr" where
  "rstrip s = rev (dropWhile isspace (rev s))"

definition strip_fences :: "pystr \<Rightarrow> pystr" where
  "strip_fences s =
     (let r = (if startswith s ([96, 96, 96] @ lit ''json'') then dropWhile isspace (drop 7 s)
               else s) in
      if endswith r [96, 96, 96] then rstrip (take (length r - 3) r)
      else if endswith r [96, 96, 96, 10] then rstrip (take (length r - 4) r) @ [10]
      else r)"

text \<open>
  \<open>re.search(r"\{.*\}\s*\Z", s, flags=re.S)\<close>, as \<open>m.group(0)\<close> when there is a match. The
  search is leftmost, \<open>.*\<close> is greedy and matches newlines: the match starts at the first
  opening brace (code 123) of \<open>s\<close> and runs to the end of \<open>s\<close>, provided a closing brace
  (code 125) after it is followed by whitespace only.
\<close>

definition search_object :: "pystr \<Rightarrow> pystr option" where
  "search_object s =
     (let m = dropWhile (\<lambda>c. c \<noteq> 123) s in
      if m \<noteq> [] \<and> rstrip (tl m) \<noteq> [] \<and> last (rstrip (tl m)) = 125 then Some m else None)"

text \<open>\<open>parse_possible_json\<close> (lines 92--106).\<close>

definition parse_possible_json :: "pystr \<Rightarrow> error + json" where
  "parse_possible_json s0 =
     (let s = strip s0 in
      if s = [] then Inl ValueError
      else
        (let s = strip (strip_fences s);
             s = (if \<not> startswith s (lit ''{'')
                  then (case search_object s of Some m \<Rightarrow> m | None \<Rightarrow> s)
                  else s)
         in json_loads s))"

section \<open>Row projector\<close>

text \<open>
  A row is a Python \<open>dict\<close> from column names to values. \<open>why\<close> is the suffix
  \<open>" \<emdash> why"\<close> of the f-string in line 113: a space, an em dash (U+2014), a space and
  \<open>why\<close>.
\<close>

type_synonym row = "(pystr \<times> json) list"

definition why :: pystr where
  "why = lit '' '' @ [8212] @ lit '' why''"

text \<open>\<open>to_rows\<close> (lines 109--114); \<open>to_rows_loop\<close> is its \<open>for k, v in ...\<close> loop.\<close>

fun to_rows_loop :: "row \<Rightarrow> (pystr \<times> json) list \<Rightarrow> error + row" where
  "to_rows_loop row [] = Inr row"
| "to_rows_loop row ((k, v) # kvs) =
     (case subscript v (lit ''score'') of
        Inl e \<Rightarrow> Inl e
      | Inr sc \<Rightarrow>
          (case subscript v (lit ''justification'') of
             Inl e \<Rightarrow> Inl e
           | Inr ju \<Rightarrow> to_rows_loop (dict_set (dict_set row k sc) (k @ why) ju) kvs))"

definition to_rows :: "json \<Rightarrow> error + row list" where
  "to_rows obj =
     (case subscript obj (lit ''district'') of
        Inl e \<Rightarrow> Inl e
      | Inr d \<Rightarrow>
          (case subscript obj (lit ''scores'') of
             Inl e \<Rightarrow> Inl e
           | Inr scores \<Rightarrow>
               (case items scores of
                  Inl e \<Rightarrow> Inl e
                | Inr kvs \<Rightarrow>
                    (case to_rows_loop [(lit ''district'', d)] kvs of
                       Inl e \<Rightarrow> Inl e
                     | Inr row \<Rightarrow> Inr [row]))))"

text \<open>The seven category names, as the prompt template (lines 65--71) lists them.\<close>

definition categories :: "pystr list" where
  "categories =
     [lit ''Facility Inventory & Condition Assessment'',
      lit ''Enrollment & Capacity Planning'',
      lit ''Educational Alignment'',
      lit ''Outdoor Spaces & Greening'',
      lit ''Climate Risk & Mitigation'',
      lit ''Energy Efficiency & Resilience'',
      lit ''Financial Plan & Capital Strategy'']"

section \<open>Reading a PDF\<close>

text \<open>
  A page is what \<open>p.extract_text()\<close> gives: \<open>Some\<close> text, or \<open>None\<close> when the call raises
  or returns nothing; both \<open>None\<close> and the empty text count as \<open>""\<close> (lines 18--21).
  \<open>slice_to xs k\<close> is the Python slice \<open>xs[:k]\<close>: a negative \<open>k\<close> counts from the end.
\<close>

type_synonym page = "pystr option"

definition slice_to :: "'a list \<Rightarrow> int \<Rightarrow> 'a list" where
  "slice_to xs k = (if k < 0 then take (nat (int (length xs) + k)) xs else take (nat k) xs)"

text \<open>
  Line 15: \<open>reader.pages[: (max_pages or len(reader.pages))]\<close>. \<open>max_pages or n\<close> is \<open>n\<close> when
  \<open>max_pages\<close> is \<open>None\<close> or \<open>0\<close>.
\<close>

definition selected_pages :: "page list \<Rightarrow> int option \<Rightarrow> page list" where
  "selected_pages pages max_pages =
     slice_to pages
       (case max_pages of
          None \<Rightarrow> int (length pages)
        | Some n \<Rightarrow> if n = 0 then int (length pages) else n)"

text \<open>
  \<open>read_pdf_text\<close> (lines 13--22). \<open>reader\<close> is \<open>PdfReader\<close>: the pages of the file at a
  path, or the exception it raises.
\<close>

definition read_pdf_text ::
  "(pystr \<Rightarrow> error + page list) \<Rightarrow> pystr \<Rightarrow> int option \<Rightarrow> error + pystr" where
  "read_pdf_text reader pdf_path max_pages =
     (case reader pdf_path of
        Inl e \<Rightarrow> Inl e
      | Inr pages \<Rightarrow>
          Inr (join (lit ''\<newline>\<newline>'')
                 (map (\<lambda>p. case p of None \<Rightarrow> [] | Some t \<Rightarrow> t) (selected_pages pages max_pages))))"

section \<open>District names\<close>

text \<open>
  \<open>Path(pdf).stem\<close> on a POSIX path: the name is the last component that is neither empty
  nor \<open>.\<close> (\<open>""\<close> when there is none), and the stem is the name up to its last dot, unless
  that dot is the first or the last character of the name. Code 47 is the slash, 46 the
  dot.
\<close>

fun split_on :: "nat \<Rightarrow> pystr \<Rightarrow> pystr list" where
  "split_on sep [] = [[]]"
| "split_on sep (c # cs) =
     (if c = sep then [] # split_on sep cs
      else (case split_on sep cs of [] \<Rightarrow> [[c]] | x # xs \<Rightarrow> (c # x) # xs))"

definition path_name :: "pystr \<Rightarrow> pystr" where
  "path_name p =
     (case filter (\<lambda>x. x \<noteq> [] \<and> x \<noteq> lit ''.'') (split_on 47 p) of
        [] \<Rightarrow> []
      | x # xs \<Rightarrow> last (x # xs))"

definition rfind :: "nat \<Rightarrow> pystr \<Rightarrow> nat option" where
  "rfind c s =
     (if c \<in> set s then Some (length s - 1 - length (takeWhile (\<lambda>x. x \<noteq> c) (rev s))) else None)"

definition stem :: "pystr \<Rightarrow> pystr" where
  "stem p =
     (let name = path_name p in
      case rfind 46 name of
        None \<Rightarrow> name
      | Some i \<Rightarrow> if 0 < i \<and> i + 1 < length name then take i name else name)"

text \<open>\<open>s.replace("_", " ")\<close>.\<close>

definition replace_underscores :: "pystr \<Rightarrow> pystr" where
  "replace_underscores s = map (\<lambda>c. if c = 95 then 32 else c) s"

text \<open>
  \<open>s.title()\<close> reads the Unicode character database of the interpreter: whether a code
  point is cased, whether it is case-ignorable, and its full lower-case and title-case
  mappings (one to three code points). The database is not part of the script; it is a
  parameter here.
\<close>

record ucd =
  is_cased :: "nat \<Rightarrow> bool"
  is_case_ignorable :: "nat \<Rightarrow> bool"
  to_lower_full :: "nat \<Rightarrow> pystr"
  to_title_full :: "nat \<Rightarrow> pystr"

text \<open>
  Lower-casing a capital sigma (U+03A3, code 931) depends on its context: it becomes a
  final sigma (962) when a cased character precedes it, case-ignorable characters
  apart, and none follows it; otherwise a small sigma (963). \<open>before\<close> and \<open>after\<close> are the
  parts of the string on the two sides of the character.
\<close>

definition final_sigma :: "ucd \<Rightarrow> pystr \<Rightarrow> pystr \<Rightarrow> bool" where
  "final_sigma u before after \<longleftrightarrow>
     (case dropWhile (is_case_ignorable u) (rev before) of
        [] \<Rightarrow> False
      | c # _ \<Rightarrow> is_cased u c) \<and>
     (case dropWhile (is_case_ignorable u) after of
        [] \<Rightarrow> True
      | c # _ \<Rightarrow> \<not> is_cased u c)"

definition lower_at :: "ucd \<Rightarrow> pystr \<Rightarrow> nat \<Rightarrow> pystr \<Rightarrow> pystr" where
  "lower_at u before c after =
     (if c = 931 then [if final_sigma u before after then 962 else 963]
      else to_lower_full u c)"

text \<open>
  The loop of \<open>str.title()\<close>: a character that follows a cased character is lower-cased,
  any other character is title-cased.
\<close>

fun title_loop :: "ucd \<Rightarrow> pystr \<Rightarrow> bool \<Rightarrow> pystr \<Rightarrow> pystr" where
  "title_loop u before previous_is_cased [] = []"
| "title_loop u before previous_is_cased (c # after) =
     (if previous_is_cased then lower_at u before c after else to_title_full u c) @
     title_loop u (before @ [c]) (is_cased u c) after"

definition title :: "ucd \<Rightarrow> pystr \<Rightarrow> pystr" where
  "title u s = title_loop u [] False s"

text \<open>
  Lines 140--144: the name supplied for document \<open>i\<close> if \<open>--district-names\<close> was given (and
  is not empty) and has an entry \<open>i\<close>, else the name derived from the file name.
\<close>

definition district_name :: "ucd \<Rightarrow> pystr list option \<Rightarrow> nat \<Rightarrow> pystr \<Rightarrow> pystr" where
  "district_name u supplied i pdf =
     (case supplied of
        None \<Rightarrow> title u (replace_underscores (stem pdf))
      | Some names \<Rightarrow>
          if names \<noteq> [] \<and> i < length names then names ! i
          else title u (replace_underscores (stem pdf)))"


section \<open>Prompt builder and model call\<close>

text \<open>The two prompt texts (lines 40--77); code 8211 is the en dash.\<close>

definition SYSTEM_PROMPT :: pystr where
  \<open>SYSTEM_PROMPT =
     lit ''You are an analyst scoring K'' @ [8211] @
     lit ''12 Facility Master Plans using the provided rubric.\<newline>'' @
     lit ''Return STRICT JSON only. No prose. Follow the schema exactly.\<newline>'' @
     lit ''Scoring categories and allowed ranges:\<newline>'' @
     lit ''- Facility Inventory & Condition Assessment: 1'' @ [8211] @ lit ''4\<newline>'' @
     lit ''- Enrollment & Capacity Planning: 1'' @ [8211] @ lit ''4\<newline>'' @
     lit ''- Educational Alignment: 1'' @ [8211] @ lit ''4\<newline>'' @
     lit ''- Outdoor Spaces & Greening: 1'' @ [8211] @ lit ''4\<newline>'' @
     lit ''- Climate Risk & Mitigation: 0'' @ [8211] @ lit ''4\<newline>'' @
     lit ''- Energy Efficiency & Resilience: 1'' @ [8211] @ lit ''4\<newline>'' @
     lit ''- Financial Plan & Capital Strategy: 1'' @ [8211] @ lit ''4\<newline>'' @
     lit ''For each category, include a concise 1'' @ [8211] @
     lit ''2 sentence justification with page/section citations if possible.\<newline>''\<close>

definition USER_PROMPT_TEMPLATE :: "pystr \<Rightarrow> pystr \<Rightarrow> pystr \<Rightarrow> pystr" where
  \<open>USER_PROMPT_TEMPLATE rubric district chunks =
     lit ''Rubric (verbatim):\<newline>'' @
     lit ''---\<newline>'' @
     rubric @ lit ''\<newline>'' @
     lit ''---\<newline>'' @
     lit ''\<newline>'' @
     lit ''Plan content (chunked). Combine evidence across chunks. If a category is not covered, score at the appropriate lower tier and say why.\<newline>'' @
     lit ''\<newline>'' @
     lit ''Return JSON with this exact shape:\<newline>'' @
     lit ''\<newline>'' @
     lit ''{\<newline>'' @
     lit ''  "district": "'' @ district @ lit ''",\<newline>'' @
     lit ''  "scores": {\<newline>'' @
     lit ''    "Facility Inventory & Condition Assessment": {"score": int, "justification": str},\<newline>'' @
     lit ''    "Enrollment & Capacity Planning": {"score": int, "justification": str},\<newline>'' @
     lit ''    "Educational Alignment": {"score": int, "justification": str},\<newline>'' @
     lit ''    "Outdoor Spaces & Greening": {"score": int, "justification": str},\<newline>'' @
     lit ''    "Climate Risk & Mitigation": {"score": int, "justification": str},\<newline>'' @
     lit ''    "Energy Efficiency & Resilience": {"score": int, "justification": str},\<newline>'' @
     lit ''    "Financial Plan & Capital Strategy": {"score": int, "justification": str}\<newline>'' @
     lit ''  }\<newline>'' @
     lit ''}\<newline>'' @
     lit ''\<newline>'' @
     lit ''Plan chunks:\<newline>'' @
     chunks @ lit ''\<newline>''\<close>

text \<open>\<open>str(n)\<close> for a natural number, and the block of numbered chunks of line 149.\<close>

fun str_nat :: "nat \<Rightarrow> pystr" where
  "str_nat n = (if n < 10 then [48 + n] else str_nat (n div 10) @ [48 + n mod 10])"

definition chunk_block :: "pystr list \<Rightarrow> pystr" where
  "chunk_block chunks =
     join (lit ''\<newline>\<newline>'')
       (map (\<lambda>(j, c). lit ''--- CHUNK '' @ str_nat (j + 1) @ lit '' ---\<newline>'' @ c)
          (enumerate 0 chunks))"

text \<open>
  \<open>call_model\<close> (lines 79--88). \<open>chat\<close> is the remote call: model identifier, system text
  and user text in; the content of the first choice (possibly \<open>None\<close>) or an exception
  out.
\<close>

definition call_model ::
  "(pystr \<Rightarrow> pystr \<Rightarrow> pystr \<Rightarrow> error + pystr option) \<Rightarrow> pystr \<Rightarrow> pystr \<Rightarrow> pystr \<Rightarrow> error + pystr"
  where
  "call_model chat model system user =
     (case chat model (system @ lit ''\<newline>Return ONLY valid JSON. No prose, no markdown.'') user of
        Inl e \<Rightarrow> Inl e
      | Inr content \<Rightarrow> Inr (case content of None \<Rightarrow> [] | Some t \<Rightarrow> t))"

section \<open>Batch orchestrator\<close>

text \<open>
  What a file holds: a text as it was written, the serialisation
  \<open>json.dumps(v, indent=2, ensure_ascii=False)\<close> of a value, or the CSV that pandas writes
  for a list of rows. The serialisers are not modelled: a content is identified by the
  value it was written from.
\<close>

datatype content = Text pystr | Json json | Csv "row list"

text \<open>
  A file is identified by what the operating system resolves a path to (think of the
  canonical absolute path): two names may denote one file, as \<open>A_raw.txt\<close> and
  \<open>./A_raw.txt\<close> do.
\<close>

type_synonym file_id = pystr

text \<open>
  The world outside the script:
  \<^item> \<open>api_key\<close>: the credential variable; \<open>read_text\<close>: reading the rubric file;
  \<^item> \<open>pdf_reader\<close>: \<open>PdfReader\<close>; \<open>chat env i\<close>: the outcome of the request made for
    document \<open>i\<close> (the model is not a function of its prompt);
  \<^item> \<open>unicode\<close>: the Unicode database of the interpreter;
  \<^item> \<open>mkdir\<close>: the exception, if any, that creating the output directory raises;
  \<^item> \<open>file_of env dir name\<close>: the file that \<open>Path(dir) / name\<close> denotes;
  \<^item> \<open>write_fails env f c\<close>: \<open>None\<close> when writing \<open>c\<close> to \<open>f\<close> succeeds; otherwise the
    exception raised and what the failed attempt leaves in the file, if it touched it
    (a missing directory leaves nothing, an encoding error leaves an empty file).
\<close>

record env =
  api_key :: "pystr option"
  read_text :: "pystr \<Rightarrow> error + pystr"
  pdf_reader :: "pystr \<Rightarrow> error + page list"
  chat :: "nat \<Rightarrow> pystr \<Rightarrow> pystr \<Rightarrow> pystr \<Rightarrow> error + pystr option"
  unicode :: ucd
  mkdir :: "pystr \<Rightarrow> error option"
  file_of :: "pystr \<Rightarrow> pystr \<Rightarrow> file_id"
  write_fails :: "file_id \<Rightarrow> content \<Rightarrow> (error \<times> content option) option"

text \<open>The parsed command line (lines 119--126).\<close>

record args =
  rubric :: pystr
  pdfs :: "pystr list"
  district_names :: "pystr list option"
  model :: pystr
  max_pages :: "int option"
  out :: pystr

text \<open>
  The state of a run: the files on disk and the accumulator \<open>all_rows\<close>. What is printed
  is not modelled.
\<close>

record state =
  files :: "file_id \<rightharpoonup> content"
  all_rows :: "row list"

text \<open>
  Writing \<open>c\<close> to \<open>Path(dir) / name\<close> (\<open>write_text\<close> in lines 163, 175 and 185, \<open>to_csv\<close> in
  line 184): the new state and the exception raised, if any.
\<close>

definition write_text :: "env \<Rightarrow> pystr \<Rightarrow> pystr \<Rightarrow> content \<Rightarrow> state \<Rightarrow> state \<times> error option" where
  "write_text env dir name c st =
     (case write_fails env (file_of env dir name) c of
        None \<Rightarrow> (st\<lparr>files := (files st)(file_of env dir name \<mapsto> c)\<rparr>, None)
      | Some (e, None) \<Rightarrow> (st, Some e)
      | Some (e, Some c') \<Rightarrow> (st\<lparr>files := (files st)(file_of env dir name \<mapsto> c')\<rparr>, Some e))"

text \<open>
  Lines 140--159: the district of document \<open>i\<close> and the reply of the model for it, from
  reading the PDF to the call.
\<close>

definition district_of :: "env \<Rightarrow> args \<Rightarrow> nat \<Rightarrow> pystr \<Rightarrow> pystr" where
  "district_of env a i pdf = district_name (unicode env) (district_names a) i pdf"

definition model_reply :: "env \<Rightarrow> args \<Rightarrow> pystr \<Rightarrow> nat \<Rightarrow> pystr \<Rightarrow> error + pystr" where
  "model_reply env a rubric_text i pdf =
     (case read_pdf_text (pdf_reader env) pdf (max_pages a) of
        Inl e \<Rightarrow> Inl e
      | Inr text \<Rightarrow>
          (let chunks = chunk_text text 1200;
               user_prompt =
                 USER_PROMPT_TEMPLATE rubric_text (district_of env a i pdf) (chunk_block chunks)
           in call_model (chat env i) (model a) SYSTEM_PROMPT user_prompt))"

text \<open>The names of the two files of a document (the f-strings of lines 162 and 175).\<close>

definition raw_name :: "pystr \<Rightarrow> pystr" where
  "raw_name district = district @ lit ''_raw.txt''"

definition json_name :: "pystr \<Rightarrow> pystr" where
  "json_name district = district @ lit ''.json''"

text \<open>
  Lines 165--179: the reply is parsed; the parsed object is saved and its row appended.
  An exception leaves the state as it is at that point.
\<close>

definition parse_and_record :: "env \<Rightarrow> pystr \<Rightarrow> pystr \<Rightarrow> pystr \<Rightarrow> state \<Rightarrow> state \<times> error option" where
  "parse_and_record env out_dir district raw st =
     (case parse_possible_json raw of
        Inl e \<Rightarrow> (st, Some e)
      | Inr obj \<Rightarrow>
          (case write_text env out_dir (json_name district) (Json obj) st of
             (st2, Some e) \<Rightarrow> (st2, Some e)
           | (st2, None) \<Rightarrow>
               (case to_rows obj of
                  Inl e \<Rightarrow> (st2, Some e)
                | Inr rows \<Rightarrow> (st2\<lparr>all_rows := all_rows st2 @ rows\<rparr>, None))))"

text \<open>
  Lines 161--179: the raw reply (a marker if it is empty) is saved first; what follows
  runs only if that write did not raise.
\<close>

definition save_and_parse :: "env \<Rightarrow> pystr \<Rightarrow> pystr \<Rightarrow> pystr \<Rightarrow> state \<Rightarrow> state \<times> error option" where
  "save_and_parse env out_dir district raw st =
     (case write_text env out_dir (raw_name district)
             (Text (if raw \<noteq> [] then raw else lit ''<EMPTY_RESPONSE>'')) st of
        (st1, Some e) \<Rightarrow> (st1, Some e)
      | (st1, None) \<Rightarrow> parse_and_record env out_dir district raw st1)"

text \<open>The body of the loop over the documents (lines 138--179).\<close>

definition loop_body :: "env \<Rightarrow> args \<Rightarrow> pystr \<Rightarrow> nat \<Rightarrow> pystr \<Rightarrow> state \<Rightarrow> state \<times> error option" where
  "loop_body env a rubric_text i pdf st =
     (case model_reply env a rubric_text i pdf of
        Inl e \<Rightarrow> (st, Some e)
      | Inr raw \<Rightarrow> save_and_parse env (out a) (district_of env a i pdf) raw st)"

text \<open>\<open>for i, pdf in enumerate(args.pdfs)\<close>: an exception ends the loop.\<close>

fun loop :: "env \<Rightarrow> args \<Rightarrow> pystr \<Rightarrow> nat \<Rightarrow> pystr list \<Rightarrow> state \<Rightarrow> state \<times> error option" where
  "loop env a rubric_text i [] st = (st, None)"
| "loop env a rubric_text i (pdf # rest) st =
     (case loop_body env a rubric_text i pdf st of
        (st', Some e) \<Rightarrow> (st', Some e)
      | (st', None) \<Rightarrow> loop env a rubric_text (Suc i) rest st')"

text \<open>Lines 182--185: the aggregate files, written after the loop, the CSV first.\<close>

definition write_aggregate :: "env \<Rightarrow> pystr \<Rightarrow> state \<Rightarrow> state \<times> error option" where
  "write_aggregate env out_dir st =
     (case write_text env out_dir (lit ''scores.csv'') (Csv (all_rows st)) st of
        (st1, Some e) \<Rightarrow> (st1, Some e)
      | (st1, None) \<Rightarrow>
          write_text env out_dir (lit ''scores.json'') (Json (JArr (map JObj (all_rows st)))) st1)"

text \<open>
  \<open>main\<close> (lines 117--186), from the parsed arguments and the files on disk before the
  run.
\<close>

definition main :: "env \<Rightarrow> args \<Rightarrow> (file_id \<rightharpoonup> content) \<Rightarrow> state \<times> error option" where
  "main env a fs =
     (let st0 = \<lparr>files = fs, all_rows = []\<rparr> in
      case api_key env of
        None \<Rightarrow> (st0, Some SystemExit)
      | Some key \<Rightarrow>
          if key = [] then (st0, Some SystemExit)
          else
            (case read_text env (rubric a) of
               Inl e \<Rightarrow> (st0, Some e)
             | Inr rubric_text \<Rightarrow>
                 (case mkdir env (out a) of
                    Some e \<Rightarrow> (st0, Some e)
                  | None \<Rightarrow>
                      (case loop env a rubric_text 0 (pdfs a) st0 of
                         (st, Some e) \<Rightarrow> (st, Some e)
                       | (st, None) \<Rightarrow> write_aggregate env (out a) st))))"


section \<open>Notions used in the statements\<close>

text \<open>
  The two columns a category \<open>k\<close> contributes, and the two cells of an entry \<open>(k, v)\<close> of
  the \<open>scores\<close> mapping; \<open>has_entry v\<close> says that \<open>v["score"]\<close> and \<open>v["justification"]\<close> do
  not raise.
\<close>

definition columns_of :: "pystr list \<Rightarrow> pystr list" where
  "columns_of ks = concat (map (\<lambda>k. [k, k @ why]) ks)"

definition entry_columns :: "pystr \<times> json \<Rightarrow> row" where
  "entry_columns kv =
     [(fst kv, projr (subscript (snd kv) (lit ''score''))),
      (fst kv @ why, projr (subscript (snd kv) (lit ''justification'')))]"

definition has_entry :: "json \<Rightarrow> bool" where
  "has_entry v \<longleftrightarrow>
     \<not> isl (subscript v (lit ''score'')) \<and> \<not> isl (subscript v (lit ''justification''))"

text \<open>The example object of the specification.\<close>

definition oakville :: json where
  "oakville = JObj [(lit ''district'', JStr (lit ''Oakville'')),
     (lit ''scores'', JObj [(lit ''Energy Efficiency & Resilience'',
        JObj [(lit ''score'', JInt 3), (lit ''justification'', JStr (lit ''ok''))])])]"

text \<open>The keys of the \<open>scores\<close> mapping of a parsed reply (none if there is no such mapping).\<close>

definition scores_keys :: "json \<Rightarrow> pystr list" where
  "scores_keys obj =
     (case subscript obj (lit ''scores'') of Inr (JObj kvs) \<Rightarrow> map fst kvs | _ \<Rightarrow> [])"

text \<open>A reply with the seven categories, and one with a category of its own.\<close>

definition full_reply :: json where
  "full_reply = JObj [(lit ''district'', JStr (lit ''Oakville'')),
     (lit ''scores'', JObj (map (\<lambda>k. (k, JObj [(lit ''score'', JInt 2),
                                                  (lit ''justification'', JStr (lit ''ok''))]))
                             categories))]"

definition other_reply :: json where
  "other_reply = JObj [(lit ''district'', JStr (lit ''Oakville'')),
     (lit ''scores'', JObj [(lit ''Other'',
        JObj [(lit ''score'', JInt 3), (lit ''justification'', JStr (lit ''ok''))])])]"

text \<open>
  The escape that follows a backslash inside a string, as \<open>scanstring\<close> reads it: the
  character it stands for and the input behind it.
\<close>

definition scan_escape :: "pystr \<Rightarrow> (nat \<times> pystr) option" where
  "scan_escape r =
     (case r of
        [] \<Rightarrow> None
      | e # r1 \<Rightarrow>
          if e \<noteq> 117 then (case backslash e of None \<Rightarrow> None | Some x \<Rightarrow> Some (x, r1))
          else
            (case r1 of
               h1 # h2 # h3 # h4 # r2 \<Rightarrow>
                 (case decode_uXXXX h1 h2 h3 h4 of
                    None \<Rightarrow> None
                  | Some uni \<Rightarrow>
                      if 55296 \<le> uni \<and> uni \<le> 56319 then
                        (case r2 of
                           b # u # r3 \<Rightarrow>
                             if b = 92 \<and> u = 117 then
                               (case r3 of
                                  l1 # l2 # l3 # l4 # r4 \<Rightarrow>
                                    (case decode_uXXXX l1 l2 l3 l4 of
                                       None \<Rightarrow> None
                                     | Some uni2 \<Rightarrow>
                                         if 56320 \<le> uni2 \<and> uni2 \<le> 57343
                                         then Some (65536 + ((uni - 55296) * 1024 + (uni2 - 56320)), r4)
                                         else Some (uni, r2))
                                | _ \<Rightarrow> None)
                             else Some (uni, r2)
                         | _ \<Rightarrow> Some (uni, r2))
                      else Some (uni, r2))
             | _ \<Rightarrow> None))"

text \<open>
  What the Unicode database says about ASCII: the cased code points below 128 are the
  letters, and their lower-case and title-case mappings are the usual ones.
  \<open>ascii_ucd\<close> is a table that is right on ASCII and maps every other code point to
  itself; it serves in the examples, whose names are ASCII.
\<close>

definition ascii_letter :: "nat \<Rightarrow> bool" where
  "ascii_letter c \<longleftrightarrow> (65 \<le> c \<and> c \<le> 90) \<or> (97 \<le> c \<and> c \<le> 122)"


definition ascii_ucd :: ucd where
  "ascii_ucd =
     \<lparr>is_cased = ascii_letter,
      is_case_ignorable = (\<lambda>c. c = 39 \<or> c = 46 \<or> c = 58 \<or> c = 94 \<or> c = 96),
      to_lower_full = (\<lambda>c. [if 65 \<le> c \<and> c \<le> 90 then c + 32 else c]),
      to_title_full = (\<lambda>c. [if 97 \<le> c \<and> c \<le> 122 then c - 32 else c])\<rparr>"


text \<open>
  The two files of a district, and the writes that a document makes when none of them
  raises: its raw reply (the marker for an empty reply) and, if the reply parses, the
  parsed object. \<open>batch_writes\<close> lists the writes of documents \<open>0, 1, ...\<close> in order, and
  \<open>apply_writes\<close> performs a list of writes on the files.
\<close>

definition raw_file :: "env \<Rightarrow> args \<Rightarrow> pystr \<Rightarrow> file_id" where
  "raw_file env a district = file_of env (out a) (raw_name district)"

definition json_file :: "env \<Rightarrow> args \<Rightarrow> pystr \<Rightarrow> file_id" where
  "json_file env a district = file_of env (out a) (json_name district)"

definition doc_writes :: "env \<Rightarrow> args \<Rightarrow> pystr \<Rightarrow> nat \<Rightarrow> pystr \<Rightarrow> (file_id \<times> content) list" where
  "doc_writes env a rubric_text i pdf =
     (case model_reply env a rubric_text i pdf of
        Inl e \<Rightarrow> []
      | Inr raw \<Rightarrow>
          (raw_file env a (district_of env a i pdf),
           Text (if raw \<noteq> [] then raw else lit ''<EMPTY_RESPONSE>'')) #
          (case parse_possible_json raw of
             Inl e \<Rightarrow> []
           | Inr obj \<Rightarrow> [(json_file env a (district_of env a i pdf), Json obj)]))"

definition batch_writes :: "env \<Rightarrow> args \<Rightarrow> pystr \<Rightarrow> nat \<Rightarrow> pystr list \<Rightarrow> (file_id \<times> content) list" where
  "batch_writes env a rubric_text i docs =
     concat (map (\<lambda>(k, pdf). doc_writes env a rubric_text k pdf) (enumerate i docs))"

definition apply_writes ::
  "(file_id \<times> content) list \<Rightarrow> (file_id \<rightharpoonup> content) \<Rightarrow> (file_id \<rightharpoonup> content)" where
  "apply_writes ws fs = foldl (\<lambda>m (f, c). m(f \<mapsto> c)) fs ws"

text \<open>
  A small world for the examples: every PDF has one page, the model answers request \<open>i\<close>
  with \<open>replies i\<close>, and \<open>fails\<close> says which writes raise. The file that a relative name
  denotes under a relative directory is given by its components, those that are empty
  or \<open>.\<close> left out (no symbolic links and no \<open>..\<close> in the examples). \<open>good_reply\<close> is a
  well-formed reply (with no category) and \<open>good_obj\<close> the object it parses to;
  \<open>bad_reply\<close> is not JSON.
\<close>

definition posix_join :: "pystr \<Rightarrow> pystr \<Rightarrow> file_id" where
  "posix_join dir name =
     join (lit ''/'')
       (filter (\<lambda>x. x \<noteq> [] \<and> x \<noteq> lit ''.'') (split_on 47 (dir @ lit ''/'' @ name)))"

definition demo_env ::
  "(nat \<Rightarrow> pystr) \<Rightarrow> (file_id \<Rightarrow> content \<Rightarrow> (error \<times> content option) option) \<Rightarrow> env" where
  "demo_env replies fails =
     \<lparr>api_key = Some (lit ''key''),
      read_text = (\<lambda>p. Inr (lit ''rubric'')),
      pdf_reader = (\<lambda>p. Inr [Some (lit ''plan text'')]),
      chat = (\<lambda>i m s u. Inr (Some (replies i))),
      unicode = ascii_ucd,
      mkdir = (\<lambda>d. None),
      file_of = posix_join,
      write_fails = fails\<rparr>"

definition demo_args :: "pystr list \<Rightarrow> pystr list option \<Rightarrow> args" where
  "demo_args ps names =
     \<lparr>rubric = lit ''rubric.txt'', pdfs = ps, district_names = names,
      model = lit ''gpt-4o-mini'', max_pages = None, out = lit ''scores''\<rparr>"

text \<open>
  Three worlds: every write succeeds; the directory \<open>scores/X\<close> does not exist, so that
  opening \<open>scores/X/Y_raw.txt\<close> raises and leaves nothing; a text with the lone surrogate
  U+D83D (code 55357) cannot be encoded, so that writing it raises after the file was
  opened, and leaves it empty.
\<close>

definition no_failure :: "file_id \<Rightarrow> content \<Rightarrow> (error \<times> content option) option" where
  "no_failure f c = None"

definition missing_directory :: "file_id \<Rightarrow> content \<Rightarrow> (error \<times> content option) option" where
  "missing_directory f c =
     (if f = lit ''scores/X/Y_raw.txt'' then Some (External (lit ''FileNotFoundError''), None)
      else None)"

definition unencodable :: "file_id \<Rightarrow> content \<Rightarrow> (error \<times> content option) option" where
  "unencodable f c =
     (if c = Text [55357] then Some (External (lit ''UnicodeEncodeError''), Some (Text []))
      else None)"

definition good_reply :: pystr where
  \<open>good_reply = lit ''{"district": "A", "scores": {}}''\<close>

definition good_obj :: json where
  "good_obj = JObj [(lit ''district'', JStr (lit ''A'')), (lit ''scores'', JObj [])]"

definition bad_reply :: pystr where
  "bad_reply = lit ''oops''"

text \<open>A second well-formed reply, and a reply with the seven categories (it parses to
  \<open>full_reply\<close>).\<close>

definition good_reply2 :: pystr where
  \<open>good_reply2 = lit ''{"district": "A2", "scores": {}}''\<close>

definition good_obj2 :: json where
  "good_obj2 = JObj [(lit ''district'', JStr (lit ''A2'')), (lit ''scores'', JObj [])]"

definition full_reply_text :: pystr where
  \<open>full_reply_text = lit (''{"district": "Oakville", "scores": {'' @
     ''"Facility Inventory & Condition Assessment": {"score": 2, "justification": "ok"}, '' @
     ''"Enrollment & Capacity Planning": {"score": 2, "justification": "ok"}, '' @
     ''"Educational Alignment": {"score": 2, "justification": "ok"}, '' @
     ''"Outdoor Spaces & Greening": {"score": 2, "justification": "ok"}, '' @
     ''"Climate Risk & Mitigation": {"score": 2, "justification": "ok"}, '' @
     ''"Energy Efficiency & Resilience": {"score": 2, "justification": "ok"}, '' @
     ''"Financial Plan & Capital Strategy": {"score": 2, "justification": "ok"}}}'')\<close>

section \<open>Properties of the text chunker\<close>

lemma split_acc_nospace:
  "\<forall>c\<in>set w. \<not> isspace c \<Longrightarrow> split_acc acc (w @ r) = split_acc (acc @ w) r"
  by (induction w arbitrary: acc) auto

lemma isspace_32: "isspace 32" by (simp add: isspace_def)

lemma lit_space: "lit '' '' = [32]" by (simp add: lit_def)

lemma split_word_sep: "is_word w \<Longrightarrow> split (w @ 32 # r) = w # split r"
  unfolding split_def is_word_def
  using split_acc_nospace[of w "[]" "32 # r"] by (simp add: isspace_32)

lemma split_word: "is_word w \<Longrightarrow> split w = [w]"
  unfolding split_def is_word_def
  using split_acc_nospace[of w "[]" "[]"] by simp

lemma split_join: "\<forall>w\<in>set ws. is_word w \<Longrightarrow> split (join [32] ws) = ws"
proof (induction ws)
  case Nil
  show ?case by (simp add: split_def)
next
  case (Cons x ws)
  show ?case
  proof (cases ws)
    case Nil
    with Cons.prems show ?thesis by (simp add: split_word)
  next
    case (Cons y ys)
    with Cons.IH Cons.prems have "split (join [32] (y # ys)) = y # ys" by simp
    moreover have "is_word x" using Cons.prems by simp
    ultimately show ?thesis using Cons by (simp add: split_word_sep)
  qed
qed

lemma split_acc_words:
  "\<forall>c\<in>set acc. \<not> isspace c \<Longrightarrow> \<forall>w\<in>set (split_acc acc s). is_word w"
proof (induction s arbitrary: acc)
  case Nil
  then show ?case by (simp add: is_word_def)
next
  case (Cons a s)
  show ?case
  proof (cases "isspace a")
    case True
    have "\<forall>w\<in>set (split_acc [] s). is_word w" using Cons.IH[of "[]"] by simp
    with True Cons.prems show ?thesis by (simp add: is_word_def)
  next
    case False
    with Cons.prems have "\<forall>c\<in>set (acc @ [a]). \<not> isspace c" by simp
    from Cons.IH[OF this] False show ?thesis by simp
  qed
qed

lemma split_words: "\<forall>w\<in>set (split s). is_word w"
  unfolding split_def using split_acc_words[of "[]" s] by simp

lemma chunk_loop_words:
  "\<forall>w\<in>set buf. is_word w \<Longrightarrow> \<forall>w\<in>set ws. is_word w \<Longrightarrow>
   concat (map split (chunk_loop cs chunks buf sz ws)) = concat (map split chunks) @ buf @ ws"
  by (induction ws arbitrary: chunks buf sz) (simp_all add: split_join lit_space)

lemma split_acc_empty_iff: "split_acc acc s = [] \<longleftrightarrow> acc = [] \<and> (\<forall>c\<in>set s. isspace c)"
  by (induction s arbitrary: acc) auto

lemma chunk_loop_empty_iff: "chunk_loop cs chunks buf sz ws = [] \<longleftrightarrow> chunks = [] \<and> buf = [] \<and> ws = []"
  by (induction ws arbitrary: chunks buf sz) auto

text \<open>
  Claim C1. For every input string and every target budget (positive or not), the words of
  the chunks returned by \<open>chunk_text\<close>, concatenated in order, are exactly the
  whitespace-split words of the input; an input with at least one non-whitespace character
  yields at least one chunk, and an empty or all-whitespace input yields no chunk.
\<close>

theorem chunk_text_words:
  "concat (map split (chunk_text s t)) = split s \<and>
   ((\<exists>c\<in>set s. \<not> isspace c) \<longrightarrow> chunk_text s t \<noteq> []) \<and>
   ((\<forall>c\<in>set s. isspace c) \<longrightarrow> chunk_text s t = [])"
  unfolding chunk_text_def
  using chunk_loop_words[of "[]" "split s" "t*4" "[]" 0] split_words[of s]
  by (auto simp: chunk_loop_empty_iff split_def split_acc_empty_iff)

theorem chunk_text_words_witness:
  "chunk_text (lit ''ab  cd e'') 1 \<noteq> [] \<and>
   concat (map split (chunk_text (lit ''ab  cd e'') 1)) = split (lit ''ab  cd e'') \<and>
   chunk_text [32, 9, 10] 1 = []"
  using chunk_text_words[of "lit ''ab  cd e''" 1] chunk_text_words[of "[32, 9, 10]" 1]
  by (simp add: lit_def isspace_def)

lemma length_join_space:
  "buf \<noteq> [] \<Longrightarrow> int (length (join [32] buf)) + 1 = (\<Sum>w\<leftarrow>buf. int (length w) + 1)"
proof (induction buf)
  case Nil
  then show ?case by simp
next
  case (Cons x buf)
  then show ?case by (cases buf) simp_all
qed

lemma chunk_loop_append:
  "chunk_loop cs chunks buf sz ws = chunks @ chunk_loop cs [] buf sz ws"
proof (induction ws arbitrary: chunks buf sz)
  case Nil
  show ?case by simp
next
  case (Cons w ws)
  show ?case
    using Cons.IH[of "chunks @ [join (lit '' '') (buf @ [w])]" "[]" 0]
          Cons.IH[of "[join (lit '' '') (buf @ [w])]" "[]" 0]
          Cons.IH[of chunks "buf @ [w]"]
    by simp
qed

lemma chunk_loop_closed:
  "sz = (\<Sum>w\<leftarrow>buf. int (length w) + 1) \<Longrightarrow>
   c \<in> set (butlast (chunk_loop cs [] buf sz ws)) \<Longrightarrow> cs \<le> int (length c) + 1"
proof (induction ws arbitrary: buf sz)
  case Nil
  then show ?case by (simp split: if_splits)
next
  case (Cons w ws)
  show ?case
  proof (cases "sz + (int (length w) + 1) \<ge> cs")
    case True
    let ?x = "join (lit '' '') (buf @ [w])"
    have eq: "chunk_loop cs [] buf sz (w # ws) = ?x # chunk_loop cs [] [] 0 ws"
      using True chunk_loop_append[of cs "[?x]" "[]" 0 ws] by simp
    have "c = ?x \<or> c \<in> set (butlast (chunk_loop cs [] [] 0 ws))"
      using Cons.prems(2) unfolding eq by (auto split: if_splits)
    then show ?thesis
    proof
      assume "c = ?x"
      moreover have "int (length ?x) + 1 = sz + (int (length w) + 1)"
        using length_join_space[of "buf @ [w]"] Cons.prems(1) by (simp add: lit_space)
      ultimately show ?thesis using True by simp
    next
      assume "c \<in> set (butlast (chunk_loop cs [] [] 0 ws))"
      then show ?thesis using Cons.IH[of 0 "[]"] by simp
    qed
  next
    case False
    then have "chunk_loop cs [] buf sz (w # ws) = chunk_loop cs [] (buf @ [w]) (sz + (int (length w) + 1)) ws"
      by simp
    with Cons.prems show ?thesis
      using Cons.IH[of "sz + (int (length w) + 1)" "buf @ [w]"] by simp
  qed
qed

text \<open>
  Claim C4, as amended. The counter that closes a chunk adds one separator for every word,
  so it is one more than the length of the joined chunk: every chunk except possibly the
  last has at least \<open>target_tokens * 4 - 1\<close> characters, that is 4799 (not 4800) for the
  default budget of 1200.
\<close>

theorem chunk_text_closed_size:
  "c \<in> set (butlast (chunk_text s t)) \<Longrightarrow> t * 4 \<le> int (length c) + 1"
  unfolding chunk_text_def using chunk_loop_closed[of 0 "[]" c "t * 4" "split s"] by simp

lemma is_word_replicate: "0 < n \<Longrightarrow> \<not> isspace a \<Longrightarrow> is_word (replicate n a)"
  by (auto simp: is_word_def)

lemma chunk_text_long_word:
  "chunk_text (replicate 4799 97 @ [32, 98]) 1200 = [replicate 4799 97, [98]]"
proof -
  have w: "is_word (replicate 4799 97)" by (rule is_word_replicate) (simp_all add: isspace_def)
  have "split (replicate 4799 97 @ 32 # [98]) = replicate 4799 97 # split [98]"
    by (rule split_word_sep[OF w])
  moreover have "split [98] = [[98]]" by (simp add: split_def isspace_def)
  ultimately show ?thesis by (simp add: chunk_text_def lit_space)
qed

text \<open>
  Claim C4 as stated fails: a word of 4799 characters followed by a second word is closed
  as a chunk of 4799 characters, which is not the last chunk.
\<close>

theorem chunk_text_4800_counterexample:
  "chunk_text (replicate 4799 97 @ [32, 98]) 1200 = [replicate 4799 97, [98]] \<and>
   length (replicate 4799 (97::nat)) < 4800"
  using chunk_text_long_word by simp

theorem chunk_text_closed_size_witness:
  "replicate 4799 97 \<in> set (butlast (chunk_text (replicate 4799 97 @ [32, 98]) 1200)) \<and>
   (1200::int) * 4 \<le> int (length (replicate 4799 (97::nat))) + 1"
  using chunk_text_closed_size[of "replicate 4799 97" "replicate 4799 97 @ [32, 98]" 1200]
        chunk_text_long_word by simp

section \<open>Properties of the PDF reader and of the district names\<close>

text \<open>
  Claim C9 fails on the code. With \<open>--max-pages 0\<close> the cap is dropped and every page is
  read (\<open>0 or n\<close> is \<open>n\<close>), and with a negative value the slice counts from the end: two
  pages are read under a cap of 0, and two of three under a cap of -1.
\<close>

theorem read_pdf_text_max_pages_zero:
  "read_pdf_text (\<lambda>p. Inr [Some (lit ''one''), Some (lit ''two'')]) (lit ''plan.pdf'') (Some 0)
     = Inr (lit ''one\<newline>\<newline>two'') \<and>
   length (selected_pages [Some (lit ''one''), Some (lit ''two'')] (Some 0)) = 2 \<and>
   length (selected_pages [Some (lit ''one''), Some (lit ''two''), Some (lit ''three'')] (Some (- 1))) = 2"
  by (simp add: read_pdf_text_def selected_pages_def slice_to_def lit_def)

text \<open>For a positive cap the number of pages read is within the cap.\<close>

lemma selected_pages_positive:
  "0 < n \<Longrightarrow> int (length (selected_pages pages (Some n))) \<le> n"
  by (simp add: selected_pages_def slice_to_def)

















lemma ascii_replace: "(\<forall>c\<in>set s. c < 128) \<Longrightarrow> (\<forall>c\<in>set (replace_underscores s). c < 128)"
  by (auto simp: replace_underscores_def)



section \<open>Properties of the row projector\<close>

lemma dict_set_new: "k \<notin> fst ` set d \<Longrightarrow> dict_set d k v = d @ [(k, v)]"
  by (induction d) auto

lemma columns_of_Cons: "columns_of (k # ks) = k # (k @ why) # columns_of ks"
  by (simp add: columns_of_def)

lemma to_rows_loop_entries:
  "\<forall>v\<in>snd ` set kvs. has_entry v \<Longrightarrow>
   distinct (map fst row @ columns_of (map fst kvs)) \<Longrightarrow>
   to_rows_loop row kvs = Inr (row @ concat (map entry_columns kvs))"
proof (induction kvs arbitrary: row)
  case Nil
  show ?case by simp
next
  case (Cons x kvs)
  obtain k v where x: "x = (k, v)" by (cases x)
  from Cons.prems(1) obtain sc ju where
    look: "subscript v (lit ''score'') = Inr sc" "subscript v (lit ''justification'') = Inr ju"
    unfolding x has_entry_def
    by (cases "subscript v (lit ''score'')"; cases "subscript v (lit ''justification'')") auto
  let ?row = "row @ [(k, sc), (k @ why, ju)]"
  have k: "k \<notin> fst ` set row" and kw: "k @ why \<notin> fst ` set (row @ [(k, sc)])"
    using Cons.prems(2) unfolding x by (auto simp: columns_of_Cons)
  have step: "dict_set (dict_set row k sc) (k @ why) ju = ?row"
    using dict_set_new[OF k, of sc] dict_set_new[OF kw, of ju] by simp
  have d: "distinct (map fst ?row @ columns_of (map fst kvs))"
    using Cons.prems(2) unfolding x by (auto simp: columns_of_Cons)
  have a: "\<forall>v\<in>snd ` set kvs. has_entry v"
    using Cons.prems(1) by simp
  show ?case
    unfolding x using Cons.IH[OF a d] look step by (simp add: entry_columns_def)
qed

text \<open>
  Claim C7, as amended. For an object with a \<open>district\<close> field and a \<open>scores\<close> mapping whose
  entries all have \<open>score\<close> and \<open>justification\<close>, and in which \<open>district\<close>, the category
  names and the category names suffixed with \<open>" \<emdash> why"\<close> are pairwise distinct,
  \<open>to_rows\<close> returns exactly one row: \<open>district\<close> copied, then for each entry in the
  mapping's order the category with its score and the suffixed category with its
  justification.
\<close>

theorem to_rows_projection:
  assumes "subscript obj (lit ''district'') = Inr d"
    and "subscript obj (lit ''scores'') = Inr (JObj kvs)"
    and "\<forall>v\<in>snd ` set kvs. has_entry v"
    and "distinct (lit ''district'' # columns_of (map fst kvs))"
  shows "to_rows obj = Inr [(lit ''district'', d) # concat (map entry_columns kvs)]"
  using assms(1,2) to_rows_loop_entries[OF assms(3), of "[(lit ''district'', d)]"] assms(4)
  by (simp add: to_rows_def)

theorem to_rows_projection_witness:
  "to_rows oakville =
     Inr [[(lit ''district'', JStr (lit ''Oakville'')),
           (lit ''Energy Efficiency & Resilience'', JInt 3),
           (lit ''Energy Efficiency & Resilience'' @ why, JStr (lit ''ok''))]]"
  using to_rows_projection[of oakville "JStr (lit ''Oakville'')"
      "[(lit ''Energy Efficiency & Resilience'',
         JObj [(lit ''score'', JInt 3), (lit ''justification'', JStr (lit ''ok''))])]"]
  by (simp add: oakville_def lit_def why_def columns_of_def entry_columns_def has_entry_def)

text \<open>
  Claim C7 as stated fails when a column name is written twice: with a category that is
  itself named \<open>district\<close>, the district of the object is overwritten by the score.
\<close>

theorem to_rows_district_counterexample:
  "to_rows (JObj [(lit ''district'', JStr (lit ''Oakville'')),
     (lit ''scores'', JObj [(lit ''district'',
        JObj [(lit ''score'', JInt 3), (lit ''justification'', JStr (lit ''ok''))])])])
   = Inr [[(lit ''district'', JInt 3), (lit ''district'' @ why, JStr (lit ''ok''))]]"
  by (simp add: to_rows_def lit_def why_def)

lemma map_fst_dict_set:
  "map fst (dict_set d k v) = (if k \<in> set (map fst d) then map fst d else map fst d @ [k])"
  by (induction d) force+

lemma keys_dict_set: "fst ` set (dict_set d k v) = insert k (fst ` set d)"
proof -
  have "set (map fst (dict_set d k v)) = insert k (set (map fst d))"
    unfolding map_fst_dict_set by auto
  then show ?thesis by simp
qed

lemma to_rows_loop_keys:
  "to_rows_loop row kvs = Inr row' \<Longrightarrow>
   set (map fst row') = set (map fst row) \<union> set (columns_of (map fst kvs))"
proof (induction kvs arbitrary: row)
  case Nil
  then show ?case by (simp add: columns_of_def)
next
  case (Cons x kvs)
  obtain k v where x: "x = (k, v)" by (cases x)
  from Cons.prems obtain sc ju where
    r: "to_rows_loop (dict_set (dict_set row k sc) (k @ why) ju) kvs = Inr row'"
    unfolding x by (auto split: sum.splits)
  from Cons.IH[OF r] show ?case
    unfolding x by (auto simp: keys_dict_set columns_of_Cons)
qed

lemma columns_of_set: "set ks = set ks' \<Longrightarrow> set (columns_of ks) = set (columns_of ks')"
  by (auto simp: columns_of_def)

text \<open>
  The row that \<open>to_rows\<close> returns has the column \<open>district\<close> and, for each key \<open>k\<close> of
  the \<open>scores\<close> mapping, the columns \<open>k\<close> and \<open>k\<close> suffixed with \<open>" \<emdash> why"\<close>.
\<close>

lemma to_rows_column_set:
  assumes "to_rows obj = Inr rows"
  shows "length rows = 1 \<and>
    (\<forall>row\<in>set rows. set (map fst row) = set (lit ''district'' # columns_of (scores_keys obj))) \<and>
    (set (scores_keys obj) = set categories \<longrightarrow>
       (\<forall>row\<in>set rows. set (map fst row) = set (lit ''district'' # columns_of categories)))"
proof -
  from assms obtain d sc kvs row where
    s: "subscript obj (lit ''scores'') = Inr sc" and i: "items sc = Inr kvs"
    and l: "to_rows_loop [(lit ''district'', d)] kvs = Inr row" and r: "rows = [row]"
    by (auto simp: to_rows_def split: sum.splits)
  from i have "sc = JObj kvs" by (cases sc) auto
  with s have k: "scores_keys obj = map fst kvs" by (simp add: scores_keys_def)
  have c: "set (map fst row) = set (lit ''district'' # columns_of (scores_keys obj))"
    using to_rows_loop_keys[OF l] k by simp
  show ?thesis using c r columns_of_set[of "scores_keys obj" categories] by auto
qed

lemma to_rows_full_reply:
  "to_rows full_reply = Inr [(lit ''district'', JStr (lit ''Oakville'')) #
     concat (map (\<lambda>k. [(k, JInt 2), (k @ why, JStr (lit ''ok''))]) categories)]"
  by (simp add: to_rows_def full_reply_def categories_def lit_def why_def)

lemma scores_keys_full_reply: "scores_keys full_reply = categories"
  by (simp add: scores_keys_def full_reply_def lit_def comp_def)

text \<open>
  Claim C2 as stated fails: a reply whose \<open>scores\<close> mapping has the key \<open>Other\<close> gives a
  row with the column \<open>Other\<close>, which is none of the fixed columns.
\<close>

theorem to_rows_columns_counterexample:
  "to_rows other_reply =
     Inr [[(lit ''district'', JStr (lit ''Oakville'')), (lit ''Other'', JInt 3),
           (lit ''Other'' @ why, JStr (lit ''ok''))]] \<and>
   lit ''Other'' \<notin> set (lit ''district'' # columns_of categories)"
  by (simp add: to_rows_def other_reply_def categories_def columns_of_def lit_def why_def)

section \<open>Properties of the JSON decoder\<close>

text \<open>
  The fuel that \<open>json_loads\<close> gives the decoder is enough: every call consumes input, so
  the decoder never stops for lack of fuel.
\<close>

lemma scanstring_escape:
  "scanstring acc (c # r) =
     (if c = 34 then Inr (acc, r)
      else if c = 92 then
        (case scan_escape r of
           None \<Rightarrow> Inl JSONDecodeError
         | Some (x, r') \<Rightarrow> scanstring (acc @ [x]) r')
      else if c < 32 then Inl JSONDecodeError
      else scanstring (acc @ [c]) r)"
  by (simp add: scan_escape_def split: list.split option.split)


lemma scan_escape_shorter: "scan_escape r = Some (x, r') \<Longrightarrow> length r' < length r"
  unfolding scan_escape_def
  by (simp split: list.splits option.splits if_splits) auto

lemma scanstring_shorter:
  "scanstring acc s = Inr (x, r) \<Longrightarrow> length r < length s"
proof (induction "length s" arbitrary: acc s rule: less_induct)
  case less
  show ?case
  proof (cases s)
    case Nil
    with less.prems show ?thesis by simp
  next
    case (Cons c t)
    note eq = scanstring_escape[of acc c t]
    show ?thesis
    proof (cases "c = 34")
      case True
      with less.prems Cons show ?thesis by simp
    next
      case q: False
      show ?thesis
      proof (cases "c = 92")
        case True
        with less.prems q obtain y t' where
          e: "scan_escape t = Some (y, t')" and r: "scanstring (acc @ [y]) t' = Inr (x, r)"
          unfolding Cons eq by (auto split: option.splits)
        from scan_escape_shorter[OF e] have "length t' < length s" using Cons by simp
        from less.hyps[OF this r] scan_escape_shorter[OF e] show ?thesis using Cons by simp
      next
        case False
        with less.prems q have r: "scanstring (acc @ [c]) t = Inr (x, r)"
          unfolding Cons eq by (auto split: if_splits)
        have "length t < length s" using Cons by simp
        from less.hyps[OF this r] show ?thesis using Cons by simp
      qed
    qed
  qed
qed

lemma scanstring_fuel: "scanstring acc s \<noteq> Inl OutOfFuel"
proof (induction "length s" arbitrary: acc s rule: less_induct)
  case less
  show ?case
  proof (cases s)
    case Nil
    then show ?thesis by simp
  next
    case (Cons c t)
    note eq = scanstring_escape[of acc c t]
    have t: "scanstring a t \<noteq> Inl OutOfFuel" for a
      using less.hyps[of t a] Cons by simp
    have e: "scanstring a t' \<noteq> Inl OutOfFuel" if "scan_escape t = Some (y, t')" for a y t'
      using less.hyps[of t' a] scan_escape_shorter[OF that] Cons by simp
    show ?thesis
      unfolding Cons eq using t e by (auto split: option.splits)
  qed
qed

lemma dropWhile_length: "length (dropWhile P xs) \<le> length xs"
  by (induction xs) auto

lemma match_int_shorter: "match_int s = Some (i, r) \<Longrightarrow> length r < length s"
  unfolding match_int_def
  by (auto split: list.splits if_splits simp: less_Suc_eq_le dropWhile_length le_SucI is_digit_def)

lemma match_frac_shorter: "match_frac s = (f, r) \<Longrightarrow> length r \<le> length s"
  unfolding match_frac_def
  by (auto split: list.splits if_splits simp: dropWhile_length le_SucI)

lemma match_exp_shorter: "match_exp s = (e, r) \<Longrightarrow> length r \<le> length s"
  unfolding match_exp_def
  by (auto split: list.splits if_splits simp: dropWhile_length le_SucI Let_def)

lemma match_number_shorter: "match_number s = Some (v, r) \<Longrightarrow> length r < length s"
proof -
  assume a: "match_number s = Some (v, r)"
  then obtain i r0 where i: "match_int s = Some (i, r0)"
    by (auto simp: match_number_def split: option.splits)
  obtain f r1 where f: "match_frac r0 = (f, r1)" by (cases "match_frac r0")
  obtain e r2 where e: "match_exp r1 = (e, r2)" by (cases "match_exp r1")
  from a i f e have "r = r2" by (auto simp: match_number_def split: if_splits)
  with match_int_shorter[OF i] match_frac_shorter[OF f] match_exp_shorter[OF e]
  show ?thesis by simp
qed


lemma dropWhile_Cons_shorter: "dropWhile P xs = y # ys \<Longrightarrow> length ys < length xs"
  using dropWhile_length[of P xs] by simp

lemma scan_shorter:
  "(\<forall>s v r. scan_once n s = Inr (v, r) \<longrightarrow> length r < length s) \<and>
   (\<forall>pairs s v r. parse_object n pairs s = Inr (v, r) \<longrightarrow> length r < length s) \<and>
   (\<forall>vals s v r. parse_array n vals s = Inr (v, r) \<longrightarrow> length r < length s)"
proof (induction n)
  case 0
  show ?case by simp
next
  case (Suc n)
  then have so: "\<And>s v r. scan_once n s = Inr (v, r) \<Longrightarrow> length r < length s"
    and po: "\<And>pairs s v r. parse_object n pairs s = Inr (v, r) \<Longrightarrow> length r < length s"
    and pa: "\<And>vals s v r. parse_array n vals s = Inr (v, r) \<Longrightarrow> length r < length s"
    by blast+
  have A: "length r < length s" if a: "scan_once (Suc n) s = Inr (v, r)" for s v r
  proof (cases s)
    case Nil
    with a show ?thesis by simp
  next
    case (Cons c t)
    consider (str) "c = 34" | (obj) "c \<noteq> 34" "c = 123" | (arr) "c \<noteq> 34" "c \<noteq> 123" "c = 91"
      | (other) "c \<noteq> 34" "c \<noteq> 123" "c \<noteq> 91" by blast
    then show ?thesis
    proof cases
      case str
      with a Cons obtain x where "scanstring [] t = Inr (x, r)"
        by (auto split: sum.splits)
      from scanstring_shorter[OF this] Cons show ?thesis by simp
    next
      case obj
      show ?thesis
      proof (cases "dropWhile json_ws t")
        case Nil
        with a Cons obj show ?thesis by simp
      next
        case d: (Cons c' r')
        note sh = dropWhile_Cons_shorter[OF d]
        show ?thesis
        proof (cases "c' = 125")
          case True
          with a Cons obj d sh show ?thesis by simp
        next
          case False
          with a Cons obj d have "parse_object n [] (c' # r') = Inr (v, r)" by simp
          from po[OF this] sh Cons show ?thesis by simp
        qed
      qed
    next
      case arr
      show ?thesis
      proof (cases "dropWhile json_ws t")
        case Nil
        with a Cons arr show ?thesis by simp
      next
        case d: (Cons c' r')
        note sh = dropWhile_Cons_shorter[OF d]
        show ?thesis
        proof (cases "c' = 93")
          case True
          with a Cons arr d sh show ?thesis by simp
        next
          case False
          with a Cons arr d have "parse_array n [] (c' # r') = Inr (v, r)" by simp
          from pa[OF this] sh Cons show ?thesis by simp
        qed
      qed
    next
      case other
      with a Cons show ?thesis
        by (auto split: if_splits option.splits dest: match_number_shorter)
    qed
  qed
  have B: "length r < length s" if a: "parse_object (Suc n) pairs s = Inr (v, r)" for pairs s v r
  proof (cases s)
    case Nil
    with a show ?thesis by simp
  next
    case (Cons c t)
    from a Cons have c: "c = 34" by (auto split: if_splits)
    from a Cons c obtain key r1 where k: "scanstring [] t = Inr (key, r1)"
      by (auto split: sum.splits)
    from a Cons c k obtain c1 r2 where d1: "dropWhile json_ws r1 = c1 # r2"
      by (auto split: list.splits)
    from a Cons c k d1 have c1: "c1 = 58" by (auto split: if_splits)
    from a Cons c k d1 c1 obtain v1 r3 where s1: "scan_once n (dropWhile json_ws r2) = Inr (v1, r3)"
      by (auto split: sum.splits)
    from a Cons c k d1 c1 s1 obtain c2 r4 where d2: "dropWhile json_ws r3 = c2 # r4"
      by (auto split: list.splits)
    have l: "length r4 < length t"
      using scanstring_shorter[OF k] dropWhile_Cons_shorter[OF d1] so[OF s1]
        dropWhile_length[of json_ws r2] dropWhile_Cons_shorter[OF d2] by simp
    show ?thesis
    proof (cases "c2 = 125")
      case True
      with a Cons c k d1 c1 s1 d2 l show ?thesis by simp
    next
      case False
      with a Cons c k d1 c1 s1 d2 have
        "parse_object n (dict_set pairs key v1) (dropWhile json_ws r4) = Inr (v, r)"
        by (auto split: if_splits)
      from po[OF this] dropWhile_length[of json_ws r4] l Cons show ?thesis by simp
    qed
  qed
  have C: "length r < length s" if a: "parse_array (Suc n) vals s = Inr (v, r)" for vals s v r
  proof -
    from a obtain v1 r1 where s1: "scan_once n s = Inr (v1, r1)"
      by (auto split: sum.splits)
    from a s1 obtain c r2 where d: "dropWhile json_ws r1 = c # r2"
      by (auto split: list.splits)
    have l: "length r2 < length s"
      using so[OF s1] dropWhile_Cons_shorter[OF d] by simp
    show ?thesis
    proof (cases "c = 93")
      case True
      with a s1 d l show ?thesis by simp
    next
      case False
      with a s1 d have "parse_array n (vals @ [v1]) (dropWhile json_ws r2) = Inr (v, r)"
        by (auto split: if_splits)
      from pa[OF this] dropWhile_length[of json_ws r2] l show ?thesis by simp
    qed
  qed
  from A B C show ?case by blast
qed


lemmas scan_once_shorter = scan_shorter[THEN conjunct1, rule_format]

lemma scan_fuel:
  "(\<forall>s. 2 * length s < n \<longrightarrow> scan_once n s \<noteq> Inl OutOfFuel) \<and>
   (\<forall>pairs s. 2 * length s + 1 < n \<longrightarrow> parse_object n pairs s \<noteq> Inl OutOfFuel) \<and>
   (\<forall>vals s. 2 * length s + 1 < n \<longrightarrow> parse_array n vals s \<noteq> Inl OutOfFuel)"
proof (induction n)
  case 0
  show ?case by simp
next
  case (Suc n)
  then have so: "\<And>s. 2 * length s < n \<Longrightarrow> scan_once n s \<noteq> Inl OutOfFuel"
    and po: "\<And>pairs s. 2 * length s + 1 < n \<Longrightarrow> parse_object n pairs s \<noteq> Inl OutOfFuel"
    and pa: "\<And>vals s. 2 * length s + 1 < n \<Longrightarrow> parse_array n vals s \<noteq> Inl OutOfFuel"
    by blast+
  have A: "scan_once (Suc n) s \<noteq> Inl OutOfFuel" if b: "2 * length s < Suc n" for s
  proof (cases s)
    case Nil
    then show ?thesis by simp
  next
    case (Cons c t)
    consider (str) "c = 34" | (obj) "c \<noteq> 34" "c = 123" | (arr) "c \<noteq> 34" "c \<noteq> 123" "c = 91"
      | (other) "c \<noteq> 34" "c \<noteq> 123" "c \<noteq> 91" by blast
    then show ?thesis
    proof cases
      case str
      with Cons scanstring_fuel[of "[]" t] show ?thesis by (auto split: sum.splits)
    next
      case obj
      show ?thesis
      proof (cases "dropWhile json_ws t")
        case Nil
        show ?thesis unfolding Cons using obj by (simp add: Nil)
      next
        case d: (Cons c' r')
        have "2 * length (c' # r') + 1 < n"
          using dropWhile_length[of json_ws t] b unfolding d Cons by simp
        from po[OF this, of "[]"] Cons obj d show ?thesis by simp
      qed
    next
      case arr
      show ?thesis
      proof (cases "dropWhile json_ws t")
        case Nil
        show ?thesis unfolding Cons using arr by (simp add: Nil)
      next
        case d: (Cons c' r')
        have "2 * length (c' # r') + 1 < n"
          using dropWhile_length[of json_ws t] b unfolding d Cons by simp
        from pa[OF this, of "[]"] Cons arr d show ?thesis by simp
      qed
    next
      case other
      with Cons show ?thesis by (auto split: option.splits)
    qed
  qed
  have B: "parse_object (Suc n) pairs s \<noteq> Inl OutOfFuel" if b: "2 * length s + 1 < Suc n" for pairs s
  proof (cases s)
    case Nil
    then show ?thesis by simp
  next
    case (Cons c t)
    show ?thesis
    proof (cases "c = 34")
      case False
      with Cons show ?thesis by simp
    next
      case c: True
      show ?thesis
      proof (cases "scanstring [] t")
        case (Inl e)
        with Cons c scanstring_fuel[of "[]" t] show ?thesis by simp
      next
        case (Inr kr)
        obtain key r1 where k: "scanstring [] t = Inr (key, r1)" using Inr by (cases kr) simp
        show ?thesis
        proof (cases "dropWhile json_ws r1")
          case Nil
          show ?thesis unfolding Cons using c by (simp add: k Nil)
        next
          case d1: (Cons c1 r2)
          show ?thesis
          proof (cases "c1 = 58")
            case False
            with Cons c k d1 show ?thesis by simp
          next
            case c1: True
            have l2: "length r2 + 2 \<le> length t"
              using scanstring_shorter[OF k] dropWhile_Cons_shorter[OF d1] by simp
            have "2 * length (dropWhile json_ws r2) < n"
              using dropWhile_length[of json_ws r2] l2 b unfolding Cons by simp
            note f1 = so[OF this]
            show ?thesis
            proof (cases "scan_once n (dropWhile json_ws r2)")
              case (Inl e)
              with Cons c k d1 c1 f1 show ?thesis by simp
            next
              case (Inr vr)
              obtain v1 r3 where s1: "scan_once n (dropWhile json_ws r2) = Inr (v1, r3)"
                using Inr by (cases vr) simp
              show ?thesis
              proof (cases "dropWhile json_ws r3")
                case Nil
                show ?thesis unfolding Cons using c c1 by (simp add: k d1 s1 Nil)
              next
                case d2: (Cons c2 r4)
                have "length r4 < length r2"
                  using scan_once_shorter[OF s1] dropWhile_length[of json_ws r2]
                    dropWhile_Cons_shorter[OF d2] by simp
                then have "2 * length (dropWhile json_ws r4) + 1 < n"
                  using dropWhile_length[of json_ws r4] l2 b unfolding Cons by simp
                from po[OF this, of "dict_set pairs key v1"] Cons c k d1 c1 s1 d2
                show ?thesis by simp
              qed
            qed
          qed
        qed
      qed
    qed
  qed
  have C: "parse_array (Suc n) vals s \<noteq> Inl OutOfFuel" if b: "2 * length s + 1 < Suc n" for vals s
  proof (cases "scan_once n s")
    case (Inl e)
    have "2 * length s < n" using b by simp
    from so[OF this] Inl show ?thesis by simp
  next
    case (Inr vr)
    obtain v1 r1 where s1: "scan_once n s = Inr (v1, r1)" using Inr by (cases vr) simp
    show ?thesis
    proof (cases "dropWhile json_ws r1")
      case Nil
      show ?thesis by (simp add: s1 Nil)
    next
      case d: (Cons c r2)
      have "length r2 + 2 \<le> length s"
        using scan_once_shorter[OF s1] dropWhile_Cons_shorter[OF d] by simp
      then have "2 * length (dropWhile json_ws r2) + 1 < n"
        using dropWhile_length[of json_ws r2] b by simp
      from pa[OF this, of "vals @ [v1]"] s1 d show ?thesis by simp
    qed
  qed
  from A B C show ?case by blast
qed

lemma json_loads_fuel: "json_loads s \<noteq> Inl OutOfFuel"
proof -
  have "2 * length (dropWhile json_ws s) < Suc (length s + length s)"
    using dropWhile_length[of json_ws s] by simp
  from scan_fuel[THEN conjunct1, rule_format, OF this]
  show ?thesis by (auto simp: json_loads_def split: sum.splits)
qed

lemma json_loads_unterminated: "json_loads (lit ''[[['') = Inl JSONDecodeError"
  by (simp add: json_loads_def lit_def startswith_def json_ws_def)

section \<open>Properties of the response parser\<close>

lemma dropWhile_space_append:
  "\<not> isspace a \<Longrightarrow> dropWhile isspace (p @ a # r) = dropWhile isspace p @ a # r"
  by (induction p) auto

lemma rstrip_nonspace:
  assumes "\<forall>c\<in>set ws. isspace c" "\<not> isspace a"
  shows "rstrip (r @ a # ws) = r @ [a]"
proof -
  have "dropWhile isspace (rev ws @ a # rev r) = dropWhile isspace (a # rev r)"
    by (rule dropWhile_append2) (use assms(1) in simp)
  then show ?thesis using assms(2) by (simp add: rstrip_def)
qed

lemma strip_rstrip: "strip s = rstrip (dropWhile isspace s)"
  by (simp add: strip_def rstrip_def)

lemma nonspace_braces: "\<not> isspace 123" "\<not> isspace 125"
  by (simp_all add: isspace_def)

lemma strip_object:
  assumes "\<forall>c\<in>set ws. isspace c"
  shows "strip (p @ (123 # body @ [125]) @ ws) = dropWhile isspace p @ 123 # body @ [125]"
proof -
  have "dropWhile isspace (p @ 123 # (body @ 125 # ws)) = dropWhile isspace p @ 123 # (body @ 125 # ws)"
    by (rule dropWhile_space_append) (rule nonspace_braces)
  moreover have "rstrip ((dropWhile isspace p @ 123 # body) @ 125 # ws) = (dropWhile isspace p @ 123 # body) @ [125]"
    by (rule rstrip_nonspace[OF assms]) (rule nonspace_braces)
  ultimately show ?thesis by (simp add: strip_rstrip)
qed

lemma startswith_brace_free:
  assumes "\<forall>c\<in>set p. c \<noteq> 123" "\<forall>c\<in>set f. c \<noteq> 123"
  shows "startswith (p @ 123 # r) f \<longleftrightarrow> startswith (p :: pystr) f"
proof (cases "length f \<le> length p")
  case True
  then show ?thesis by (simp add: startswith_def)
next
  case False
  then have "take (length f) (p @ 123 # r) = p @ 123 # take (length f - length p - 1) r"
    by (cases "length f - length p") auto
  then have m: "123 \<in> set (take (length f) (p @ 123 # r))" by simp
  have "take (length f) (p @ 123 # r) \<noteq> f"
  proof
    assume eq: "take (length f) (p @ 123 # r) = f"
    from m have "123 \<in> set f" unfolding eq .
    with assms(2) show False by blast
  qed
  moreover from False have "length (take (length f) p) < length f" by simp
  then have "take (length f) p \<noteq> f" by auto
  ultimately show ?thesis by (simp add: startswith_def)
qed

lemma endswith_last:
  assumes "endswith r f" "f \<noteq> []"
  shows "last r = last f"
proof -
  from assms have d: "drop (length r - length f) r = f" and le: "length f \<le> length r"
    by (auto simp: endswith_def)
  from assms(2) have "0 < length f" by simp
  with le have "length r - length f < length r" by arith
  then have "last (drop (length r - length f) r) = last r" by (simp add: last_drop)
  with d show ?thesis by simp
qed

lemma strip_fences_object:
  assumes "\<forall>c\<in>set p. c \<noteq> 123"
  shows "\<exists>q. (\<forall>c\<in>set q. c \<noteq> 123) \<and> (q = dropWhile isspace q \<or> q = p) \<and>
         strip_fences (p @ 123 # body @ [125]) = q @ 123 # body @ [125]"
proof -
  let ?fence = "[96, 96, 96] @ lit ''json''"
  let ?o = "123 # body @ [125]"
  define q where "q = (if startswith p ?fence then dropWhile isspace (drop 7 p) else p)"
  have ff: "\<forall>c\<in>set ?fence. c \<noteq> 123" by (simp add: lit_def)
  have sw: "startswith (p @ ?o) ?fence \<longleftrightarrow> startswith p ?fence"
    using startswith_brace_free[OF assms ff] by simp
  have len: "7 \<le> length p" if "startswith p ?fence"
  proof -
    from that have "length (take (length ?fence) p) = length ?fence"
      unfolding startswith_def by simp
    then have "length ?fence \<le> length p" by simp
    then show ?thesis by (simp add: lit_def)
  qed
  have r: "(if startswith (p @ ?o) ?fence then dropWhile isspace (drop 7 (p @ ?o)) else p @ ?o) = q @ ?o"
  proof (cases "startswith p ?fence")
    case True
    then have "drop 7 (p @ ?o) = drop 7 p @ ?o" using len by simp
    then show ?thesis using True sw dropWhile_space_append[of 123 "drop 7 p" "body @ [125]"]
      by (simp add: q_def nonspace_braces)
  next
    case False
    then show ?thesis using sw by (simp add: q_def)
  qed
  have l: "last (q @ ?o) = 125" by simp
  have n1: "\<not> endswith (q @ ?o) [96, 96, 96]"
    using endswith_last[of "q @ ?o" "[96, 96, 96]"] l by auto
  have n2: "\<not> endswith (q @ ?o) [96, 96, 96, 10]"
    using endswith_last[of "q @ ?o" "[96, 96, 96, 10]"] l by auto
  have "strip_fences (p @ ?o) = q @ ?o"
    unfolding strip_fences_def r Let_def using n1 n2 by simp
  moreover have "\<forall>c\<in>set q. c \<noteq> 123"
    using assms unfolding q_def by (auto dest: set_dropWhileD in_set_dropD)
  moreover have "q = dropWhile isspace q \<or> q = p"
    unfolding q_def by (simp add: dropWhile_idem)
  ultimately show ?thesis by blast
qed


lemma dropWhile_not_brace:
  "\<forall>c\<in>set q. c \<noteq> 123 \<Longrightarrow> dropWhile (\<lambda>c. c \<noteq> 123) (q @ 123 # r) = 123 # r"
  by (induction q) auto

lemma search_object_found:
  assumes "\<forall>c\<in>set q. c \<noteq> 123"
  shows "search_object (q @ 123 # body @ [125]) = Some (123 # body @ [125])"
proof -
  have "rstrip (body @ 125 # []) = body @ [125]"
    by (rule rstrip_nonspace) (simp_all add: nonspace_braces)
  then show ?thesis
    using dropWhile_not_brace[OF assms, of "body @ [125]"] by (simp add: search_object_def)
qed

text \<open>
  Claim C3, as amended. When the leading prose contains no opening brace, an input made
  of the prose, an object text \<open>{...}\<close> and trailing whitespace is parsed as the object
  text alone: the result is what the decoder returns for that span, the parsed object
  when it is well-formed.
\<close>

theorem parse_possible_json_trailing_object:
  assumes "\<forall>c\<in>set prose. c \<noteq> 123" and "\<forall>c\<in>set ws. isspace c"
  shows "parse_possible_json (prose @ (123 # body @ [125]) @ ws) = json_loads (123 # body @ [125])"
proof -
  let ?o = "123 # body @ [125]"
  let ?p = "dropWhile isspace prose"
  have p: "\<forall>c\<in>set ?p. c \<noteq> 123" using assms(1) by (auto dest: set_dropWhileD)
  have s1: "strip (prose @ ?o @ ws) = ?p @ ?o" using strip_object[OF assms(2)] by simp
  obtain q where q: "\<forall>c\<in>set q. c \<noteq> 123" "q = dropWhile isspace q \<or> q = ?p"
    and s2: "strip_fences (?p @ ?o) = q @ ?o"
    using strip_fences_object[OF p, of body] by blast
  have qq: "dropWhile isspace q = q" using q(2) by (metis dropWhile_idem)
  have s3: "strip (q @ ?o) = q @ ?o"
    using strip_object[of "[]" q body] qq by simp
  have s4: "(if \<not> startswith (q @ ?o) (lit ''{'')
             then (case search_object (q @ ?o) of Some m \<Rightarrow> m | None \<Rightarrow> q @ ?o)
             else q @ ?o) = ?o"
  proof (cases q)
    case Nil
    then show ?thesis by (simp add: startswith_def lit_def)
  next
    case (Cons c cs)
    with q(1) have "c \<noteq> 123" by simp
    with Cons have "\<not> startswith (q @ ?o) (lit ''{'')" by (simp add: startswith_def lit_def)
    then show ?thesis using search_object_found[OF q(1), of body] by simp
  qed
  show ?thesis
    unfolding parse_possible_json_def Let_def s1 s2 s3 s4 by simp
qed

text \<open>
  Claim C3 as stated fails: the search starts at the first opening brace of the text, so
  a brace in the prose is taken for the start of the object and the decoder fails,
  although the trailing object is well-formed.
\<close>

theorem parse_possible_json_prose_brace_counterexample:
  \<open>parse_possible_json (lit ''Note {draft}: {"a": 1}'') = Inl JSONDecodeError \<and>
   json_loads (lit ''{"a": 1}'') = Inr (JObj [(lit ''a'', JInt 1)])\<close>
  by (simp add: parse_possible_json_def strip_def strip_fences_def search_object_def rstrip_def
      startswith_def endswith_def isspace_def json_loads_def lit_def json_ws_def
      match_number_def match_int_def match_frac_def match_exp_def is_digit_def int_of_digits_def)

theorem parse_possible_json_trailing_object_witness:
  \<open>parse_possible_json (lit ''Here you go: {"a": 1}  '') = Inr (JObj [(lit ''a'', JInt 1)])\<close>
proof -
  have \<open>parse_possible_json (lit ''Here you go: '' @ (123 # lit ''"a": 1'' @ [125]) @ lit ''  '')
      = json_loads (123 # lit ''"a": 1'' @ [125])\<close>
    by (rule parse_possible_json_trailing_object) (simp_all add: lit_def isspace_def)
  then show ?thesis
    by (simp add: json_loads_def lit_def json_ws_def startswith_def
      match_number_def match_int_def match_frac_def match_exp_def is_digit_def int_of_digits_def)
qed

section \<open>Properties of the batch orchestrator\<close>

text \<open>Writing a file either succeeds or raises; neither changes the accumulator.\<close>

lemma parse_empty: "parse_possible_json [] = Inl ValueError"
  by (simp add: parse_possible_json_def strip_def)

lemma write_text_ok:
  "write_fails env (file_of env dir name) c = None \<Longrightarrow>
   write_text env dir name c st = (st\<lparr>files := (files st)(file_of env dir name \<mapsto> c)\<rparr>, None)"
  by (simp add: write_text_def)

lemma write_text_fail:
  "write_fails env (file_of env dir name) c = Some (e, left) \<Longrightarrow>
   write_text env dir name c st =
     (st\<lparr>files := (case left of None \<Rightarrow> files st
                      | Some c' \<Rightarrow> (files st)(file_of env dir name \<mapsto> c'))\<rparr>, Some e)"
  by (cases left) (simp_all add: write_text_def)

lemma write_text_None:
  "write_text env dir name c st = (st', None) \<Longrightarrow>
   write_fails env (file_of env dir name) c = None \<and>
   st' = st\<lparr>files := (files st)(file_of env dir name \<mapsto> c)\<rparr>"
  by (auto simp: write_text_def split: option.splits prod.splits)

lemma all_rows_write_text: "all_rows (fst (write_text env dir name c st)) = all_rows st"
  by (auto simp: write_text_def split: option.splits prod.splits)

lemma all_rows_write_aggregate: "all_rows (fst (write_aggregate env dir st)) = all_rows st"
proof (cases "write_text env dir (lit ''scores.csv'') (Csv (all_rows st)) st")
  case (Pair st1 res)
  have r: "all_rows st1 = all_rows st"
    using all_rows_write_text[of env dir "lit ''scores.csv''" "Csv (all_rows st)" st] Pair by simp
  show ?thesis
  proof (cases res)
    case None
    then show ?thesis
      using all_rows_write_text[of env dir "lit ''scores.json''"
          "Json (JArr (map JObj (all_rows st)))" st1]
      by (simp add: write_aggregate_def Pair r)
  next
    case (Some e)
    then show ?thesis by (simp add: write_aggregate_def Pair r)
  qed
qed

text \<open>
  Claim C5, as amended. For every document for which the model returns a reply, the loop
  body first writes the reply, or the marker \<open><EMPTY_RESPONSE>\<close> when the reply is empty,
  to \<open><out>/<district>_raw.txt\<close>. If that write succeeds, the rest of the body is the
  parse, and what follows it, run on the state in which the file holds the reply: when
  the parse fails, the body raises with that write as its only change, and an empty
  reply leaves the marker in the file and raises \<open>ValueError\<close>. If the write itself
  raises, the body raises that exception and parses nothing; the file is then as the
  failed write left it.
\<close>

theorem raw_reply_saved_before_parse:
  assumes "model_reply env a rubric_text i pdf = Inr raw"
  shows
    "(write_fails env (file_of env (out a) (district_of env a i pdf @ lit ''_raw.txt''))
        (Text (if raw = [] then lit ''<EMPTY_RESPONSE>'' else raw)) = None \<longrightarrow>
      loop_body env a rubric_text i pdf st =
        parse_and_record env (out a) (district_of env a i pdf) raw
          (st\<lparr>files := (files st)(file_of env (out a) (district_of env a i pdf @ lit ''_raw.txt'')
             \<mapsto> Text (if raw = [] then lit ''<EMPTY_RESPONSE>'' else raw))\<rparr>) \<and>
      (\<forall>e. parse_possible_json raw = Inl e \<longrightarrow>
         loop_body env a rubric_text i pdf st =
           (st\<lparr>files := (files st)(file_of env (out a) (district_of env a i pdf @ lit ''_raw.txt'')
              \<mapsto> Text (if raw = [] then lit ''<EMPTY_RESPONSE>'' else raw))\<rparr>, Some e)) \<and>
      (raw = [] \<longrightarrow>
         loop_body env a rubric_text i pdf st =
           (st\<lparr>files := (files st)(file_of env (out a) (district_of env a i pdf @ lit ''_raw.txt'')
              \<mapsto> Text (lit ''<EMPTY_RESPONSE>''))\<rparr>, Some ValueError))) \<and>
     (\<forall>e left.
        write_fails env (file_of env (out a) (district_of env a i pdf @ lit ''_raw.txt''))
          (Text (if raw = [] then lit ''<EMPTY_RESPONSE>'' else raw)) = Some (e, left) \<longrightarrow>
        loop_body env a rubric_text i pdf st =
          (st\<lparr>files := (case left of
               None \<Rightarrow> files st
             | Some c \<Rightarrow> (files st)(file_of env (out a) (district_of env a i pdf @ lit ''_raw.txt'')
                 \<mapsto> c))\<rparr>, Some e))"
proof -
  let ?f = "file_of env (out a) (district_of env a i pdf @ lit ''_raw.txt'')"
  let ?c = "Text (if raw = [] then lit ''<EMPTY_RESPONSE>'' else raw)"
  have c: "Text (if raw \<noteq> [] then raw else lit ''<EMPTY_RESPONSE>'') = ?c" by simp
  have body: "loop_body env a rubric_text i pdf st =
      (case write_text env (out a) (raw_name (district_of env a i pdf)) ?c st of
         (st1, Some e) \<Rightarrow> (st1, Some e)
       | (st1, None) \<Rightarrow> parse_and_record env (out a) (district_of env a i pdf) raw st1)"
    using assms by (simp add: loop_body_def save_and_parse_def c)
  have ok: "loop_body env a rubric_text i pdf st =
      parse_and_record env (out a) (district_of env a i pdf) raw (st\<lparr>files := (files st)(?f \<mapsto> ?c)\<rparr>)"
    if w: "write_fails env ?f ?c = None"
    unfolding body using write_text_ok[of env "out a" "raw_name (district_of env a i pdf)" ?c st] w
    by (simp add: raw_name_def)
  have bad: "loop_body env a rubric_text i pdf st = (st\<lparr>files := (files st)(?f \<mapsto> ?c)\<rparr>, Some e)"
    if w: "write_fails env ?f ?c = None" and p: "parse_possible_json raw = Inl e" for e
    unfolding ok[OF w] by (simp add: parse_and_record_def p)
  have empty: "loop_body env a rubric_text i pdf st =
      (st\<lparr>files := (files st)(?f \<mapsto> Text (lit ''<EMPTY_RESPONSE>''))\<rparr>, Some ValueError)"
    if w: "write_fails env ?f ?c = None" and r: "raw = []"
    using bad[OF w, of ValueError] parse_empty r by simp
  have fail: "loop_body env a rubric_text i pdf st =
      (st\<lparr>files := (case left of None \<Rightarrow> files st | Some c \<Rightarrow> (files st)(?f \<mapsto> c))\<rparr>, Some e)"
    if w: "write_fails env ?f ?c = Some (e, left)" for e left
    unfolding body raw_name_def
    using write_text_fail[of env "out a" "district_of env a i pdf @ lit ''_raw.txt''" ?c e left st] w
    by simp
  show ?thesis using ok bad empty fail by blast
qed


text \<open>The replies of the examples, and the files and districts of the example world.\<close>

lemma parse_good: "parse_possible_json good_reply = Inr good_obj"
  by (simp add: good_reply_def good_obj_def parse_possible_json_def strip_def strip_fences_def
      startswith_def endswith_def isspace_def json_loads_def lit_def json_ws_def)

lemma parse_bad: "parse_possible_json bad_reply = Inl JSONDecodeError"
  by (simp add: bad_reply_def parse_possible_json_def strip_def strip_fences_def search_object_def
      rstrip_def startswith_def endswith_def isspace_def json_loads_def lit_def json_ws_def
      match_number_def match_int_def)

lemma to_rows_good: "to_rows good_obj = Inr [[(lit ''district'', JStr (lit ''A''))]]"
  by (simp add: good_obj_def to_rows_def lit_def)

lemma demo_model_reply:
  "model_reply (demo_env replies fails) (demo_args ps names) r i pdf = Inr (replies i)"
  by (simp add: model_reply_def demo_env_def demo_args_def read_pdf_text_def call_model_def)

lemma demo_district:
  "i < length names \<Longrightarrow>
   district_of (demo_env replies fails) (demo_args ps (Some names)) i pdf = names ! i"
  by (auto simp: district_of_def demo_args_def district_name_def)

lemma demo_fields:
  "out (demo_args ps names) = lit ''scores''"
  "pdfs (demo_args ps names) = ps"
  "rubric (demo_args ps names) = lit ''rubric.txt''"
  "file_of (demo_env replies fails) = posix_join"
  "write_fails (demo_env replies fails) = fails"
  "api_key (demo_env replies fails) = Some (lit ''key'')"
  "read_text (demo_env replies fails) p = Inr (lit ''rubric'')"
  "mkdir (demo_env replies fails) d = None"
  by (simp_all add: demo_args_def demo_env_def)

lemma demo_files:
  "posix_join (lit ''scores'') (lit ''A_raw.txt'') = lit ''scores/A_raw.txt''"
  "posix_join (lit ''scores'') (lit ''A.json'') = lit ''scores/A.json''"
  "posix_join (lit ''scores'') (lit ''X/Y_raw.txt'') = lit ''scores/X/Y_raw.txt''"
  "posix_join (lit ''scores'') (lit ''scores.csv'') = lit ''scores/scores.csv''"
  "posix_join (lit ''scores'') (lit ''scores.json'') = lit ''scores/scores.json''"
  by (simp_all add: posix_join_def lit_def)

text \<open>
  Two names of one file: the per-district file of a district \<open>./scores\<close> is the aggregate
  \<open>scores.json\<close>, and the districts \<open>A\<close> and \<open>./A\<close> share their raw file.
\<close>

lemma same_file_examples:
  "posix_join (lit ''scores'') (json_name (lit ''./scores'')) = posix_join (lit ''scores'') (lit ''scores.json'')"
  "posix_join (lit ''scores'') (raw_name (lit ''./A'')) = posix_join (lit ''scores'') (raw_name (lit ''A''))"
  by (simp_all add: posix_join_def json_name_def raw_name_def lit_def)

text \<open>
  Three documents of district \<open>A\<close>: an empty reply leaves the marker in the raw file, a
  reply that is not JSON is saved as it is, and a reply that cannot be encoded leaves an
  empty file; each run stops with the exception shown.
\<close>

theorem raw_reply_saved_before_parse_witness:
  "loop_body (demo_env (\<lambda>i. []) no_failure) (demo_args [lit ''a.pdf''] (Some [lit ''A'']))
       (lit ''rubric'') 0 (lit ''a.pdf'') \<lparr>files = Map.empty, all_rows = []\<rparr>
     = (\<lparr>files = [lit ''scores/A_raw.txt'' \<mapsto> Text (lit ''<EMPTY_RESPONSE>'')], all_rows = []\<rparr>,
        Some ValueError) \<and>
   loop_body (demo_env (\<lambda>i. bad_reply) no_failure) (demo_args [lit ''a.pdf''] (Some [lit ''A'']))
       (lit ''rubric'') 0 (lit ''a.pdf'') \<lparr>files = Map.empty, all_rows = []\<rparr>
     = (\<lparr>files = [lit ''scores/A_raw.txt'' \<mapsto> Text bad_reply], all_rows = []\<rparr>,
        Some JSONDecodeError) \<and>
   loop_body (demo_env (\<lambda>i. [55357]) unencodable) (demo_args [lit ''a.pdf''] (Some [lit ''A'']))
       (lit ''rubric'') 0 (lit ''a.pdf'') \<lparr>files = Map.empty, all_rows = []\<rparr>
     = (\<lparr>files = [lit ''scores/A_raw.txt'' \<mapsto> Text []], all_rows = []\<rparr>,
        Some (External (lit ''UnicodeEncodeError'')))"
proof -
  let ?a = "demo_args [lit ''a.pdf''] (Some [lit ''A''])"
  let ?st = "\<lparr>files = Map.empty, all_rows = []\<rparr>"
  have d: "district_of (demo_env replies fails) ?a 0 (lit ''a.pdf'') = lit ''A''" for replies fails
    using demo_district[of 0 "[lit ''A'']" replies fails "[lit ''a.pdf'']" "lit ''a.pdf''"] by simp
  have f: "lit ''A'' @ lit ''_raw.txt'' = lit ''A_raw.txt''" by (simp add: lit_def)
  have b: "bad_reply \<noteq> []" by (simp add: bad_reply_def lit_def)
  have 1: "loop_body (demo_env (\<lambda>i. []) no_failure) ?a (lit ''rubric'') 0 (lit ''a.pdf'') ?st
     = (\<lparr>files = [lit ''scores/A_raw.txt'' \<mapsto> Text (lit ''<EMPTY_RESPONSE>'')], all_rows = []\<rparr>,
        Some ValueError)"
    using raw_reply_saved_before_parse[where env = "demo_env (\<lambda>i. []) no_failure" and a = ?a
          and rubric_text = "lit ''rubric''" and i = 0 and pdf = "lit ''a.pdf''"
          and raw = "[]" and st = ?st, OF demo_model_reply]
    by (simp add: d f demo_fields demo_files no_failure_def parse_and_record_def parse_empty)
  have 2: "loop_body (demo_env (\<lambda>i. bad_reply) no_failure) ?a (lit ''rubric'') 0 (lit ''a.pdf'') ?st
     = (\<lparr>files = [lit ''scores/A_raw.txt'' \<mapsto> Text bad_reply], all_rows = []\<rparr>,
        Some JSONDecodeError)"
    using raw_reply_saved_before_parse[where env = "demo_env (\<lambda>i. bad_reply) no_failure" and a = ?a
          and rubric_text = "lit ''rubric''" and i = 0 and pdf = "lit ''a.pdf''"
          and raw = "bad_reply" and st = ?st, OF demo_model_reply]
    by (simp add: d f b demo_fields demo_files no_failure_def parse_and_record_def parse_bad)
  have 3: "loop_body (demo_env (\<lambda>i. [55357]) unencodable) ?a (lit ''rubric'') 0 (lit ''a.pdf'') ?st
     = (\<lparr>files = [lit ''scores/A_raw.txt'' \<mapsto> Text []], all_rows = []\<rparr>,
        Some (External (lit ''UnicodeEncodeError'')))"
    using raw_reply_saved_before_parse[where env = "demo_env (\<lambda>i. [55357]) unencodable" and a = ?a
          and rubric_text = "lit ''rubric''" and i = 0 and pdf = "lit ''a.pdf''"
          and raw = "[55357]" and st = ?st, OF demo_model_reply]
    by (simp add: d f demo_fields demo_files unencodable_def)
  show ?thesis using 1 2 3 by simp
qed

text \<open>
  Claim C5 as stated fails when the write of the raw reply raises: for a district \<open>X/Y\<close>
  the file \<open>scores/X/Y_raw.txt\<close> lies in a directory that does not exist; the run stops at
  line 163 with no raw file on disk, although the reply is well-formed.
\<close>

theorem raw_reply_write_failure_counterexample:
  "loop_body (demo_env (\<lambda>i. good_reply) missing_directory)
       (demo_args [lit ''a.pdf''] (Some [lit ''X/Y'']))
       (lit ''rubric'') 0 (lit ''a.pdf'') \<lparr>files = Map.empty, all_rows = []\<rparr>
     = (\<lparr>files = Map.empty, all_rows = []\<rparr>, Some (External (lit ''FileNotFoundError''))) \<and>
   file_of (demo_env (\<lambda>i. good_reply) missing_directory) (lit ''scores'')
       (raw_name (lit ''X/Y'')) = lit ''scores/X/Y_raw.txt'' \<and>
   parse_possible_json good_reply = Inr good_obj"
proof -
  have d: "district_of (demo_env (\<lambda>i. good_reply) missing_directory)
      (demo_args [lit ''a.pdf''] (Some [lit ''X/Y''])) 0 (lit ''a.pdf'') = lit ''X/Y''"
    using demo_district[of 0 "[lit ''X/Y'']" _ _ "[lit ''a.pdf'']" "lit ''a.pdf''"] by simp
  have f: "raw_name (lit ''X/Y'') = lit ''X/Y_raw.txt''" by (simp add: raw_name_def lit_def)
  show ?thesis
    by (simp add: loop_body_def demo_model_reply save_and_parse_def write_text_def d f
        demo_fields demo_files missing_directory_def parse_good)
qed

text \<open>
  A body that returns normally has saved the reply and the parsed object and appended
  one row; a body that raises leaves the accumulator as it was.
\<close>

lemma to_rows_one: "to_rows obj = Inr rows \<Longrightarrow> \<exists>row. rows = [row]"
  by (auto simp: to_rows_def split: sum.splits)

lemma loop_body_success:
  assumes "loop_body env a r i pdf st = (st', None)"
  shows "\<exists>raw obj row.
    model_reply env a r i pdf = Inr raw \<and> raw \<noteq> [] \<and>
    parse_possible_json raw = Inr obj \<and> to_rows obj = Inr [row] \<and>
    st' = st\<lparr>files := (files st)(raw_file env a (district_of env a i pdf) \<mapsto> Text raw,
                              json_file env a (district_of env a i pdf) \<mapsto> Json obj),
             all_rows := all_rows st @ [row]\<rparr>"
proof -
  let ?d = "district_of env a i pdf"
  from assms obtain raw where m: "model_reply env a r i pdf = Inr raw"
    and s: "save_and_parse env (out a) ?d raw st = (st', None)"
    by (auto simp: loop_body_def split: sum.splits)
  from s obtain st1 where
    w1: "write_text env (out a) (raw_name ?d)
           (Text (if raw \<noteq> [] then raw else lit ''<EMPTY_RESPONSE>'')) st = (st1, None)"
    and p: "parse_and_record env (out a) ?d raw st1 = (st', None)"
    by (auto simp: save_and_parse_def split: prod.splits option.splits)
  from p obtain obj st2 rows where po: "parse_possible_json raw = Inr obj"
    and w2: "write_text env (out a) (json_name ?d) (Json obj) st1 = (st2, None)"
    and tr: "to_rows obj = Inr rows" and st': "st' = st2\<lparr>all_rows := all_rows st2 @ rows\<rparr>"
    by (auto simp: parse_and_record_def split: sum.splits prod.splits option.splits)
  from to_rows_one[OF tr] obtain row where row: "rows = [row]" by blast
  have ne: "raw \<noteq> []" using po parse_empty by auto
  have st1: "st1 = st\<lparr>files := (files st)(raw_file env a ?d \<mapsto> Text raw)\<rparr>"
    using write_text_None[OF w1] ne by (simp add: raw_file_def)
  have st2: "st2 = st1\<lparr>files := (files st1)(json_file env a ?d \<mapsto> Json obj)\<rparr>"
    using write_text_None[OF w2] by (simp add: json_file_def)
  have "st' = st\<lparr>files := (files st)(raw_file env a ?d \<mapsto> Text raw,
                              json_file env a ?d \<mapsto> Json obj),
             all_rows := all_rows st @ [row]\<rparr>"
    unfolding st' st2 st1 row by simp
  with m ne po tr row show ?thesis by blast
qed

lemma loop_body_rows:
  "loop_body env a r i pdf st = (st', Some e) \<Longrightarrow> all_rows st' = all_rows st"
proof -
  assume l: "loop_body env a r i pdf st = (st', Some e)"
  show ?thesis
  proof (cases "model_reply env a r i pdf")
    case (Inl e')
    with l show ?thesis by (simp add: loop_body_def)
  next
    case (Inr raw)
    let ?d = "district_of env a i pdf"
    let ?c = "Text (if raw \<noteq> [] then raw else lit ''<EMPTY_RESPONSE>'')"
    from l Inr have s: "save_and_parse env (out a) ?d raw st = (st', Some e)"
      by (simp add: loop_body_def)
    obtain st1 res1 where w1: "write_text env (out a) (raw_name ?d) ?c st = (st1, res1)"
      by (cases "write_text env (out a) (raw_name ?d) ?c st")
    have r1: "all_rows st1 = all_rows st"
      using all_rows_write_text[of env "out a" "raw_name ?d" ?c st] w1 by simp
    show ?thesis
    proof (cases res1)
      case (Some e1)
      with s w1 r1 show ?thesis by (simp add: save_and_parse_def)
    next
      case None
      with s w1 have p: "parse_and_record env (out a) ?d raw st1 = (st', Some e)"
        by (simp add: save_and_parse_def)
      show ?thesis
      proof (cases "parse_possible_json raw")
        case (Inl e2)
        with p r1 show ?thesis by (simp add: parse_and_record_def)
      next
        case (Inr obj)
        obtain st2 res2 where
          w2: "write_text env (out a) (json_name ?d) (Json obj) st1 = (st2, res2)"
          by (cases "write_text env (out a) (json_name ?d) (Json obj) st1")
        have r2: "all_rows st2 = all_rows st1"
          using all_rows_write_text[of env "out a" "json_name ?d" "Json obj" st1] w2 by simp
        from p Inr w2 r1 r2 show ?thesis
          by (auto simp: parse_and_record_def split: option.splits sum.splits)
      qed
    qed
  qed
qed

text \<open>The loop over a list of documents, one part after the other.\<close>

lemma loop_append:
  "loop env a r i (xs @ ys) st =
     (case loop env a r i xs st of
        (st', Some e) \<Rightarrow> (st', Some e)
      | (st', None) \<Rightarrow> loop env a r (i + length xs) ys st')"
proof (induction xs arbitrary: i st)
  case Nil
  show ?case by simp
next
  case (Cons x xs)
  show ?case
  proof (cases "loop_body env a r i x st")
    case (Pair st1 res)
    show ?thesis
    proof (cases res)
      case None
      then show ?thesis
        using Pair Cons.IH[of "Suc i" st1] by (auto split: prod.splits option.splits)
    next
      case (Some e)
      then show ?thesis using Pair by simp
    qed
  qed
qed

text \<open>Lists of writes, and the files they leave.\<close>

lemma batch_writes_Nil: "batch_writes env a r i [] = []"
  by (simp add: batch_writes_def)

lemma batch_writes_Cons:
  "batch_writes env a r i (x # xs) = doc_writes env a r i x @ batch_writes env a r (Suc i) xs"
  by (simp add: batch_writes_def)

lemma batch_writes_append:
  "batch_writes env a r i (xs @ ys) =
     batch_writes env a r i xs @ batch_writes env a r (i + length xs) ys"
  by (simp add: batch_writes_def enumerate_append_eq)

lemma apply_writes_append:
  "apply_writes (ws @ ws') fs = apply_writes ws' (apply_writes ws fs)"
  by (simp add: apply_writes_def)

lemma apply_writes_Cons: "apply_writes ((f, c) # ws) fs = apply_writes ws (fs(f \<mapsto> c))"
  by (simp add: apply_writes_def)

lemma apply_writes_Nil: "apply_writes [] fs = fs"
  by (simp add: apply_writes_def)

lemma apply_writes_other: "f \<notin> fst ` set ws \<Longrightarrow> apply_writes ws fs f = fs f"
proof (induction ws arbitrary: fs)
  case Nil
  show ?case by (simp add: apply_writes_Nil)
next
  case (Cons w ws)
  obtain g c where w: "w = (g, c)" by (cases w)
  from Cons.prems have g: "f \<noteq> g" and n: "f \<notin> fst ` set ws" by (auto simp: w)
  have "apply_writes ws (fs(g \<mapsto> c)) f = (fs(g \<mapsto> c)) f" using n by (rule Cons.IH)
  then show ?case using g by (simp add: w apply_writes_Cons)
qed

lemma apply_writes_last:
  "f \<notin> fst ` set ws2 \<Longrightarrow> apply_writes (ws1 @ (f, c) # ws2) fs f = Some c"
  by (simp add: apply_writes_append apply_writes_Cons apply_writes_other)

lemma doc_writes_success:
  "model_reply env a r i pdf = Inr raw \<Longrightarrow> raw \<noteq> [] \<Longrightarrow> parse_possible_json raw = Inr obj \<Longrightarrow>
   doc_writes env a r i pdf =
     [(raw_file env a (district_of env a i pdf), Text raw),
      (json_file env a (district_of env a i pdf), Json obj)]"
  by (simp add: doc_writes_def)

lemma doc_writes_failure:
  "model_reply env a r i pdf = Inr raw \<Longrightarrow> parse_possible_json raw = Inl e \<Longrightarrow>
   doc_writes env a r i pdf =
     [(raw_file env a (district_of env a i pdf),
       Text (if raw \<noteq> [] then raw else lit ''<EMPTY_RESPONSE>''))]"
  by (simp add: doc_writes_def)

text \<open>
  A loop that returns normally has made the writes of its documents, every document has
  a reply that parses, and the rows of the accumulator come from the documents in order.
\<close>

lemma loop_files:
  "loop env a r i xs st = (st', None) \<Longrightarrow>
   files st' = apply_writes (batch_writes env a r i xs) (files st)"
proof (induction xs arbitrary: i st)
  case Nil
  then show ?case by (simp add: batch_writes_Nil apply_writes_Nil)
next
  case (Cons x xs)
  from Cons.prems obtain st1 where b: "loop_body env a r i x st = (st1, None)"
    and l: "loop env a r (Suc i) xs st1 = (st', None)"
    by (auto split: prod.splits option.splits)
  from loop_body_success[OF b] obtain raw obj row where
    m: "model_reply env a r i x = Inr raw" and ne: "raw \<noteq> []"
    and p: "parse_possible_json raw = Inr obj"
    and st1: "st1 = st\<lparr>files := (files st)(raw_file env a (district_of env a i x) \<mapsto> Text raw,
                              json_file env a (district_of env a i x) \<mapsto> Json obj),
             all_rows := all_rows st @ [row]\<rparr>"
    by blast
  have "files st1 = apply_writes (doc_writes env a r i x) (files st)"
    unfolding doc_writes_success[OF m ne p] st1 by (simp add: apply_writes_Cons apply_writes_Nil)
  then show ?case
    using Cons.IH[OF l] by (simp add: batch_writes_Cons apply_writes_append)
qed

lemma loop_docs:
  "loop env a r i xs st = (st', None) \<Longrightarrow> k < length xs \<Longrightarrow>
   \<exists>raw obj. model_reply env a r (i + k) (xs ! k) = Inr raw \<and> raw \<noteq> [] \<and>
     parse_possible_json raw = Inr obj"
proof (induction xs arbitrary: i st k)
  case Nil
  then show ?case by simp
next
  case (Cons x xs)
  from Cons.prems(1) obtain st1 where b: "loop_body env a r i x st = (st1, None)"
    and l: "loop env a r (Suc i) xs st1 = (st', None)"
    by (auto split: prod.splits option.splits)
  show ?case
  proof (cases k)
    case 0
    then show ?thesis using loop_body_success[OF b] by auto
  next
    case (Suc n)
    then have "n < length xs" using Cons.prems(2) by simp
    from Cons.IH[OF l this] show ?thesis by (simp add: Suc)
  qed
qed

lemma loop_rows_origin:
  "loop env a r i xs st = (st', res) \<Longrightarrow>
   \<exists>rows. all_rows st' = all_rows st @ rows \<and> length rows \<le> length xs \<and>
     (res = None \<longrightarrow> length rows = length xs) \<and>
     (\<forall>k<length rows. \<exists>raw obj. model_reply env a r (i + k) (xs ! k) = Inr raw \<and>
        parse_possible_json raw = Inr obj \<and> to_rows obj = Inr [rows ! k])"
proof (induction xs arbitrary: i st)
  case Nil
  then show ?case by simp
next
  case (Cons x xs)
  obtain st1 res1 where b: "loop_body env a r i x st = (st1, res1)"
    by (cases "loop_body env a r i x st")
  show ?case
  proof (cases res1)
    case (Some e)
    with Cons.prems b have "st' = st1" by simp
    then have "all_rows st' = all_rows st @ []"
      using loop_body_rows[of env a r i x st st1 e] b Some by simp
    moreover have "res \<noteq> None" using Cons.prems b Some by auto
    ultimately show ?thesis by (intro exI[of _ "[]"]) simp
  next
    case None
    with Cons.prems b have l: "loop env a r (Suc i) xs st1 = (st', res)" by simp
    from loop_body_success[OF b[unfolded None]] obtain raw obj row where
      m: "model_reply env a r i x = Inr raw" and p: "parse_possible_json raw = Inr obj"
      and t: "to_rows obj = Inr [row]" and r1: "all_rows st1 = all_rows st @ [row]"
      by auto
    from Cons.IH[OF l] obtain rows where
      a: "all_rows st' = all_rows st1 @ rows" and n: "length rows \<le> length xs"
      and c: "res = None \<longrightarrow> length rows = length xs"
      and o: "\<forall>k<length rows. \<exists>raw obj. model_reply env a r (Suc i + k) (xs ! k) = Inr raw \<and>
        parse_possible_json raw = Inr obj \<and> to_rows obj = Inr [rows ! k]"
      by blast
    have o': "\<exists>raw obj. model_reply env a r (i + k) ((x # xs) ! k) = Inr raw \<and>
        parse_possible_json raw = Inr obj \<and> to_rows obj = Inr [(row # rows) ! k]"
      if k: "k < length (row # rows)" for k
    proof (cases k)
      case 0
      then show ?thesis using m p t by simp
    next
      case (Suc j)
      then have "j < length rows" using k by simp
      with o show ?thesis by (simp add: Suc)
    qed
    show ?thesis
      using a n c o' by (intro exI[of _ "row # rows"]) (simp add: r1)
  qed
qed

text \<open>What a run of \<open>main\<close> returns, from what its loop returns.\<close>

lemma main_run:
  assumes "main env a fs = (st, res)"
  shows "all_rows st = [] \<and> res \<noteq> None \<or>
    (\<exists>r st' res'. read_text env (rubric a) = Inr r \<and>
       loop env a r 0 (pdfs a) \<lparr>files = fs, all_rows = []\<rparr> = (st', res') \<and>
       all_rows st = all_rows st' \<and> (res = None \<longrightarrow> res' = None))"
proof (cases "\<exists>key r. api_key env = Some key \<and> key \<noteq> [] \<and> read_text env (rubric a) = Inr r \<and>
    mkdir env (out a) = None")
  case False
  with assms show ?thesis
    by (auto simp: main_def Let_def split: option.splits sum.splits if_splits)
next
  case True
  then obtain key r where k: "api_key env = Some key" "key \<noteq> []"
    "read_text env (rubric a) = Inr r" "mkdir env (out a) = None" by blast
  obtain st' res' where l: "loop env a r 0 (pdfs a) \<lparr>files = fs, all_rows = []\<rparr> = (st', res')"
    by (cases "loop env a r 0 (pdfs a) \<lparr>files = fs, all_rows = []\<rparr>")
  show ?thesis
  proof (cases res')
    case (Some e)
    with assms k l have "st = st'" by (simp add: main_def)
    with k l Some assms show ?thesis by (auto simp: main_def)
  next
    case None
    with assms k l have "write_aggregate env (out a) st' = (st, res)" by (simp add: main_def)
    then have "all_rows st = all_rows st'"
      using all_rows_write_aggregate[of env "out a" st'] by simp
    with k l None show ?thesis by auto
  qed
qed

lemma write_aggregate_success:
  assumes "write_aggregate env dir st' = (st, None)"
  shows "st = st'\<lparr>files := (files st')(file_of env dir (lit ''scores.csv'') \<mapsto> Csv (all_rows st'),
      file_of env dir (lit ''scores.json'') \<mapsto> Json (JArr (map JObj (all_rows st'))))\<rparr>"
proof -
  from assms obtain st1 where
    w1: "write_text env dir (lit ''scores.csv'') (Csv (all_rows st')) st' = (st1, None)"
    and w2: "write_text env dir (lit ''scores.json'') (Json (JArr (map JObj (all_rows st')))) st1
      = (st, None)"
    by (auto simp: write_aggregate_def split: prod.splits option.splits)
  show ?thesis
    using write_text_None[OF w1] write_text_None[OF w2] by simp
qed

lemma main_success:
  assumes "main env a fs = (st, None)"
  obtains r st' where "read_text env (rubric a) = Inr r"
    and "loop env a r 0 (pdfs a) \<lparr>files = fs, all_rows = []\<rparr> = (st', None)"
    and "write_aggregate env (out a) st' = (st, None)"
  using assms
  by (auto simp: main_def Let_def split: option.splits sum.splits if_splits prod.splits)

text \<open>The last document of a loop that returns normally.\<close>

lemma loop_prefix_success:
  assumes "loop env a r i (xs @ ys) st = (st', None)"
  obtains s where "loop env a r i xs st = (s, None)"
    and "loop env a r (i + length xs) ys s = (st', None)"
  using assms unfolding loop_append by (auto split: prod.splits option.splits)

lemma loop_single:
  "loop env a r i [x] st = loop_body env a r i x st"
  by (auto split: prod.splits option.splits)

lemma loop_last:
  assumes "loop env a r i (xs @ [x]) st = (s, None)"
  shows "\<exists>s0 raw obj. loop env a r i xs st = (s0, None) \<and>
    model_reply env a r (i + length xs) x = Inr raw \<and> raw \<noteq> [] \<and>
    parse_possible_json raw = Inr obj \<and>
    files s = (files s0)(raw_file env a (district_of env a (i + length xs) x) \<mapsto> Text raw,
                         json_file env a (district_of env a (i + length xs) x) \<mapsto> Json obj)"
proof -
  from assms obtain s0 where l: "loop env a r i xs st = (s0, None)"
    and b: "loop env a r (i + length xs) [x] s0 = (s, None)"
    by (rule loop_prefix_success)
  from b have "loop_body env a r (i + length xs) x s0 = (s, None)" by (simp only: loop_single)
  from loop_body_success[OF this] l show ?thesis by auto
qed

text \<open>
  Claim C6, as amended. In a batch in which the reply of some document fails to parse,
  the earlier documents having been processed without an exception and the raw reply of
  that document saved, the run raises at that document, right after that write, whatever
  documents follow. The files on disk are then the files before the run with these
  writes applied in order: for each earlier document its raw reply and its parsed object,
  and last the raw reply of the failing document. So a file that none of these writes
  goes to is as before the run (\<open>scores.csv\<close> and \<open>scores.json\<close> are, unless a document
  file is the same file), and what a write has put into a file is still there unless a
  later one of these writes goes to the same file.
\<close>

theorem parse_failure_aborts_batch:
  assumes "api_key env = Some key" and "key \<noteq> []"
    and "read_text env (rubric a) = Inr r" and "mkdir env (out a) = None"
    and "pdfs a = pre @ pdf # post"
    and "loop env a r 0 pre \<lparr>files = fs, all_rows = []\<rparr> = (st1, None)"
    and "model_reply env a r (length pre) pdf = Inr raw"
    and "write_fails env (raw_file env a (district_of env a (length pre) pdf))
           (Text (if raw \<noteq> [] then raw else lit ''<EMPTY_RESPONSE>'')) = None"
    and "parse_possible_json raw = Inl e"
  shows
    "main env a fs =
       (st1\<lparr>files := (files st1)(raw_file env a (district_of env a (length pre) pdf)
                 \<mapsto> Text (if raw \<noteq> [] then raw else lit ''<EMPTY_RESPONSE>''))\<rparr>, Some e) \<and>
     files (fst (main env a fs)) = apply_writes (batch_writes env a r 0 (pre @ [pdf])) fs \<and>
     batch_writes env a r 0 (pre @ [pdf]) =
       batch_writes env a r 0 pre @
       [(raw_file env a (district_of env a (length pre) pdf),
         Text (if raw \<noteq> [] then raw else lit ''<EMPTY_RESPONSE>''))] \<and>
     (\<forall>k<length pre. \<exists>raw_k obj_k.
        model_reply env a r k (pre ! k) = Inr raw_k \<and> parse_possible_json raw_k = Inr obj_k \<and>
        doc_writes env a r k (pre ! k) =
          [(raw_file env a (district_of env a k (pre ! k)), Text raw_k),
           (json_file env a (district_of env a k (pre ! k)), Json obj_k)]) \<and>
     (\<forall>f. f \<notin> fst ` set (batch_writes env a r 0 (pre @ [pdf])) \<longrightarrow>
        files (fst (main env a fs)) f = fs f) \<and>
     (\<forall>ws1 f c ws2. batch_writes env a r 0 (pre @ [pdf]) = ws1 @ (f, c) # ws2 \<and>
        f \<notin> fst ` set ws2 \<longrightarrow> files (fst (main env a fs)) f = Some c)"
proof -
  let ?f = "raw_file env a (district_of env a (length pre) pdf)"
  let ?c = "Text (if raw \<noteq> [] then raw else lit ''<EMPTY_RESPONSE>'')"
  let ?ws = "batch_writes env a r 0 (pre @ [pdf])"
  have w: "write_text env (out a) (raw_name (district_of env a (length pre) pdf)) ?c st1
      = (st1\<lparr>files := (files st1)(?f \<mapsto> ?c)\<rparr>, None)"
    using write_text_ok[of env "out a" "raw_name (district_of env a (length pre) pdf)" ?c st1]
      assms(8) by (simp add: raw_file_def)
  have body: "loop_body env a r (length pre) pdf st1 = (st1\<lparr>files := (files st1)(?f \<mapsto> ?c)\<rparr>, Some e)"
    by (simp add: loop_body_def assms(7) save_and_parse_def w parse_and_record_def assms(9))
  have "loop env a r 0 (pre @ pdf # post) \<lparr>files = fs, all_rows = []\<rparr>
      = (st1\<lparr>files := (files st1)(?f \<mapsto> ?c)\<rparr>, Some e)"
    unfolding loop_append by (simp add: assms(6) body)
  then have m: "main env a fs = (st1\<lparr>files := (files st1)(?f \<mapsto> ?c)\<rparr>, Some e)"
    by (simp add: main_def assms(1,2,3,4,5))
  have ws: "?ws = batch_writes env a r 0 pre @ [(?f, ?c)]"
    by (simp add: batch_writes_append batch_writes_Cons batch_writes_Nil
        doc_writes_failure[OF assms(7,9)])
  have f1: "files st1 = apply_writes (batch_writes env a r 0 pre) fs"
    using loop_files[OF assms(6)] by simp
  have fm: "files (fst (main env a fs)) = apply_writes ?ws fs"
    unfolding m ws by (simp add: f1 apply_writes_append apply_writes_Cons apply_writes_Nil)
  have docs: "\<exists>raw_k obj_k.
        model_reply env a r k (pre ! k) = Inr raw_k \<and> parse_possible_json raw_k = Inr obj_k \<and>
        doc_writes env a r k (pre ! k) =
          [(raw_file env a (district_of env a k (pre ! k)), Text raw_k),
           (json_file env a (district_of env a k (pre ! k)), Json obj_k)]"
    if k: "k < length pre" for k
  proof -
    from loop_docs[OF assms(6) k] obtain raw_k obj_k where
      d: "model_reply env a r k (pre ! k) = Inr raw_k" "raw_k \<noteq> []"
        "parse_possible_json raw_k = Inr obj_k"
      by auto
    from doc_writes_success[OF d] d show ?thesis by blast
  qed
  have other: "files (fst (main env a fs)) f = fs f" if "f \<notin> fst ` set ?ws" for f
    unfolding fm using that by (rule apply_writes_other)
  have last: "files (fst (main env a fs)) f = Some c"
    if "?ws = ws1 @ (f, c) # ws2 \<and> f \<notin> fst ` set ws2" for ws1 f c ws2
  proof -
    from that have e: "?ws = ws1 @ (f, c) # ws2" and n: "f \<notin> fst ` set ws2" by simp_all
    show ?thesis unfolding fm e using n by (rule apply_writes_last)
  qed
  show ?thesis using m fm ws docs other last by blast
qed

text \<open>
  Claim C10. The two files of a document are determined by its district alone. In a run
  that completes, if documents \<open>i < j\<close> resolve to the same district, then after document
  \<open>i\<close> the two files of that district hold the reply and the object of document \<open>i\<close>, and
  after document \<open>j\<close> they hold those of document \<open>j\<close>; the accumulator, written to
  \<open>scores.csv\<close> and \<open>scores.json\<close>, still has one row for every document. (Where two
  names denote one file, the file holds what was written last: the object, written after
  the reply, and \<open>scores.json\<close>, written after \<open>scores.csv\<close>.)
\<close>

theorem same_district_overwrites:
  assumes "main env a fs = (st, None)" and "i < j" and "j < length (pdfs a)"
    and "district_of env a i (pdfs a ! i) = district_of env a j (pdfs a ! j)"
  shows "length (all_rows st) = length (pdfs a) \<and>
    files st (file_of env (out a) (lit ''scores.csv'')) =
      Some (if file_of env (out a) (lit ''scores.csv'') = file_of env (out a) (lit ''scores.json'')
            then Json (JArr (map JObj (all_rows st))) else Csv (all_rows st)) \<and>
    files st (file_of env (out a) (lit ''scores.json'')) = Some (Json (JArr (map JObj (all_rows st)))) \<and>
    (\<exists>r raw_i obj_i raw_j obj_j.
       read_text env (rubric a) = Inr r \<and>
       model_reply env a r i (pdfs a ! i) = Inr raw_i \<and> parse_possible_json raw_i = Inr obj_i \<and>
       model_reply env a r j (pdfs a ! j) = Inr raw_j \<and> parse_possible_json raw_j = Inr obj_j \<and>
       files (fst (loop env a r 0 (take (Suc i) (pdfs a)) \<lparr>files = fs, all_rows = []\<rparr>))
         (raw_file env a (district_of env a j (pdfs a ! j)))
         = Some (if raw_file env a (district_of env a j (pdfs a ! j))
                    = json_file env a (district_of env a j (pdfs a ! j))
                 then Json obj_i else Text raw_i) \<and>
       files (fst (loop env a r 0 (take (Suc i) (pdfs a)) \<lparr>files = fs, all_rows = []\<rparr>))
         (json_file env a (district_of env a j (pdfs a ! j))) = Some (Json obj_i) \<and>
       files (fst (loop env a r 0 (take (Suc j) (pdfs a)) \<lparr>files = fs, all_rows = []\<rparr>))
         (raw_file env a (district_of env a j (pdfs a ! j)))
         = Some (if raw_file env a (district_of env a j (pdfs a ! j))
                    = json_file env a (district_of env a j (pdfs a ! j))
                 then Json obj_j else Text raw_j) \<and>
       files (fst (loop env a r 0 (take (Suc j) (pdfs a)) \<lparr>files = fs, all_rows = []\<rparr>))
         (json_file env a (district_of env a j (pdfs a ! j))) = Some (Json obj_j))"
proof -
  let ?st0 = "\<lparr>files = fs, all_rows = []\<rparr>"
  from assms(1) obtain r st' where
    rt: "read_text env (rubric a) = Inr r"
    and l: "loop env a r 0 (pdfs a) ?st0 = (st', None)"
    and wa: "write_aggregate env (out a) st' = (st, None)"
    by (rule main_success)
  note st = write_aggregate_success[OF wa]
  have ar: "all_rows st = all_rows st'" unfolding st by simp
  from loop_rows_origin[OF l] have rows: "length (all_rows st) = length (pdfs a)"
    unfolding ar by auto
  have agg: "files st (file_of env (out a) (lit ''scores.csv'')) =
      Some (if file_of env (out a) (lit ''scores.csv'') = file_of env (out a) (lit ''scores.json'')
            then Json (JArr (map JObj (all_rows st))) else Csv (all_rows st))"
    "files st (file_of env (out a) (lit ''scores.json'')) = Some (Json (JArr (map JObj (all_rows st))))"
    unfolding ar unfolding st by simp_all
  have last_of: "\<exists>raw obj. model_reply env a r n (pdfs a ! n) = Inr raw \<and>
      parse_possible_json raw = Inr obj \<and>
      files (fst (loop env a r 0 (take (Suc n) (pdfs a)) ?st0))
        (raw_file env a (district_of env a n (pdfs a ! n)))
        = Some (if raw_file env a (district_of env a n (pdfs a ! n))
                   = json_file env a (district_of env a n (pdfs a ! n))
                then Json obj else Text raw) \<and>
      files (fst (loop env a r 0 (take (Suc n) (pdfs a)) ?st0))
        (json_file env a (district_of env a n (pdfs a ! n))) = Some (Json obj)"
    if n: "n < length (pdfs a)" for n
  proof -
    have "loop env a r 0 (take (Suc n) (pdfs a) @ drop (Suc n) (pdfs a)) ?st0 = (st', None)"
      using l by simp
    then obtain s where s: "loop env a r 0 (take (Suc n) (pdfs a)) ?st0 = (s, None)"
      by (rule loop_prefix_success)
    have t: "take (Suc n) (pdfs a) = take n (pdfs a) @ [pdfs a ! n]"
      using n by (rule take_Suc_conv_app_nth)
    have len: "min (length (pdfs a)) n = n" using n by simp
    have "\<exists>s0 raw obj. loop env a r 0 (take n (pdfs a)) ?st0 = (s0, None) \<and>
      model_reply env a r n (pdfs a ! n) = Inr raw \<and> raw \<noteq> [] \<and>
      parse_possible_json raw = Inr obj \<and>
      files s = (files s0)(raw_file env a (district_of env a n (pdfs a ! n)) \<mapsto> Text raw,
                         json_file env a (district_of env a n (pdfs a ! n)) \<mapsto> Json obj)"
      using loop_last[OF s[unfolded t]] by (simp add: len)
    then obtain s0 :: state and raw obj where
      m: "model_reply env a r n (pdfs a ! n) = Inr raw" and p: "parse_possible_json raw = Inr obj"
      and f: "files s = (files s0)(raw_file env a (district_of env a n (pdfs a ! n)) \<mapsto> Text raw,
                         json_file env a (district_of env a n (pdfs a ! n)) \<mapsto> Json obj)"
      by auto
    show ?thesis using m p by (auto simp: s f)
  qed
  from last_of[of i] assms(2,3) obtain raw_i obj_i where
    wi: "model_reply env a r i (pdfs a ! i) = Inr raw_i" "parse_possible_json raw_i = Inr obj_i"
      "files (fst (loop env a r 0 (take (Suc i) (pdfs a)) ?st0))
        (raw_file env a (district_of env a i (pdfs a ! i)))
        = Some (if raw_file env a (district_of env a i (pdfs a ! i))
                   = json_file env a (district_of env a i (pdfs a ! i))
                then Json obj_i else Text raw_i)"
      "files (fst (loop env a r 0 (take (Suc i) (pdfs a)) ?st0))
        (json_file env a (district_of env a i (pdfs a ! i))) = Some (Json obj_i)"
    by auto
  from last_of[OF assms(3)] obtain raw_j obj_j where
    wj: "model_reply env a r j (pdfs a ! j) = Inr raw_j" "parse_possible_json raw_j = Inr obj_j"
      "files (fst (loop env a r 0 (take (Suc j) (pdfs a)) ?st0))
        (raw_file env a (district_of env a j (pdfs a ! j)))
        = Some (if raw_file env a (district_of env a j (pdfs a ! j))
                   = json_file env a (district_of env a j (pdfs a ! j))
                then Json obj_j else Text raw_j)"
      "files (fst (loop env a r 0 (take (Suc j) (pdfs a)) ?st0))
        (json_file env a (district_of env a j (pdfs a ! j))) = Some (Json obj_j)"
    by auto
  show ?thesis
    using rows agg rt wi[unfolded assms(4)] wj by blast
qed

text \<open>
  Claim C2, as amended. In every run of the batch, whatever its outcome, row \<open>k\<close> of the
  accumulator is the single row that \<open>to_rows\<close> returns for the parsed reply of document
  \<open>k\<close>. Its column set is \<open>district\<close> plus, for each key \<open>c\<close> of the \<open>scores\<close> mapping of
  that reply, \<open>c\<close> and \<open>c\<close> suffixed with \<open>" \<emdash> why"\<close>: it is taken from the reply, and
  it is \<open>district\<close> plus two columns for each of the seven categories when the keys of
  the reply are the seven category names. When the run completes, the accumulator has
  one row for each document and is what \<open>scores.csv\<close> and \<open>scores.json\<close> are written from.
\<close>

theorem accumulated_rows_columns:
  assumes "main env a fs = (st, res)" and "k < length (all_rows st)"
  shows "length (all_rows st) \<le> length (pdfs a) \<and>
    (res = None \<longrightarrow> length (all_rows st) = length (pdfs a) \<and>
       files st (file_of env (out a) (lit ''scores.csv'')) =
         Some (if file_of env (out a) (lit ''scores.csv'') = file_of env (out a) (lit ''scores.json'')
               then Json (JArr (map JObj (all_rows st))) else Csv (all_rows st)) \<and>
       files st (file_of env (out a) (lit ''scores.json''))
         = Some (Json (JArr (map JObj (all_rows st))))) \<and>
    (\<exists>r raw obj.
       read_text env (rubric a) = Inr r \<and>
       model_reply env a r k (pdfs a ! k) = Inr raw \<and>
       parse_possible_json raw = Inr obj \<and>
       to_rows obj = Inr [all_rows st ! k] \<and>
       set (map fst (all_rows st ! k)) = set (lit ''district'' # columns_of (scores_keys obj)) \<and>
       (set (scores_keys obj) = set categories \<longrightarrow>
          set (map fst (all_rows st ! k)) = set (lit ''district'' # columns_of categories)))"
proof -
  from main_run[OF assms(1)] assms(2) obtain r st' res' where
    rt: "read_text env (rubric a) = Inr r"
    and l: "loop env a r 0 (pdfs a) \<lparr>files = fs, all_rows = []\<rparr> = (st', res')"
    and ar: "all_rows st = all_rows st'" and rn: "res = None \<longrightarrow> res' = None"
    by auto
  from loop_rows_origin[OF l] obtain rows where
    a: "all_rows st' = rows" and n: "length rows \<le> length (pdfs a)"
    and c: "res' = None \<longrightarrow> length rows = length (pdfs a)"
    and o: "\<forall>k<length rows. \<exists>raw obj. model_reply env a r (0 + k) (pdfs a ! k) = Inr raw \<and>
        parse_possible_json raw = Inr obj \<and> to_rows obj = Inr [rows ! k]"
    by auto
  have k: "k < length rows" using assms(2) ar a by simp
  from o[THEN spec, THEN mp, OF k] obtain raw obj where
    m: "model_reply env a r k (pdfs a ! k) = Inr raw"
    and p: "parse_possible_json raw = Inr obj" and t: "to_rows obj = Inr [all_rows st ! k]"
    by (auto simp: ar a)
  note tc = to_rows_column_set[OF t]
  have cs: "set (map fst (all_rows st ! k)) = set (lit ''district'' # columns_of (scores_keys obj))"
    using tc[THEN conjunct2, THEN conjunct1] by simp
  have cc: "set (scores_keys obj) = set categories \<longrightarrow>
          set (map fst (all_rows st ! k)) = set (lit ''district'' # columns_of categories)"
    using tc[THEN conjunct2, THEN conjunct2] by simp
  have len: "length (all_rows st) \<le> length (pdfs a)" using n ar a by simp
  have fin: "length (all_rows st) = length (pdfs a) \<and>
       files st (file_of env (out a) (lit ''scores.csv'')) =
         Some (if file_of env (out a) (lit ''scores.csv'') = file_of env (out a) (lit ''scores.json'')
               then Json (JArr (map JObj (all_rows st))) else Csv (all_rows st)) \<and>
       files st (file_of env (out a) (lit ''scores.json''))
         = Some (Json (JArr (map JObj (all_rows st))))" if "res = None"
  proof -
    from assms(1) that have "main env a fs = (st, None)" by simp
    then obtain r2 st2 where "read_text env (rubric a) = Inr r2"
      and "loop env a r2 0 (pdfs a) \<lparr>files = fs, all_rows = []\<rparr> = (st2, None)"
      and w: "write_aggregate env (out a) st2 = (st, None)"
      by (rule main_success)
    note st = write_aggregate_success[OF w]
    have ar2: "all_rows st = all_rows st2" unfolding st by simp
    have "files st (file_of env (out a) (lit ''scores.json''))
         = Some (Json (JArr (map JObj (all_rows st))))"
      unfolding ar2 unfolding st by simp
    moreover have "files st (file_of env (out a) (lit ''scores.csv'')) =
         Some (if file_of env (out a) (lit ''scores.csv'') = file_of env (out a) (lit ''scores.json'')
               then Json (JArr (map JObj (all_rows st))) else Csv (all_rows st))"
      unfolding ar2 unfolding st by simp
    moreover have "length (all_rows st) = length (pdfs a)" using that rn c ar a by simp
    ultimately show ?thesis by simp
  qed
  show ?thesis using len fin rt m p t cs cc by blast
qed

text \<open>The example worlds: the body of the loop for a reply that parses and for one that does not.\<close>

lemma parse_good2: "parse_possible_json good_reply2 = Inr good_obj2"
  by (simp add: good_reply2_def good_obj2_def parse_possible_json_def strip_def strip_fences_def
      startswith_def endswith_def isspace_def json_loads_def lit_def json_ws_def)

lemma to_rows_good2: "to_rows good_obj2 = Inr [[(lit ''district'', JStr (lit ''A2''))]]"
  by (simp add: good_obj2_def to_rows_def lit_def)

lemma replies_nonempty:
  "good_reply \<noteq> []" "good_reply2 \<noteq> []" "bad_reply \<noteq> []"
  "good_reply \<noteq> bad_reply" "good_reply \<noteq> good_reply2"
  by (simp_all add: good_reply_def good_reply2_def bad_reply_def lit_def)

lemma demo_loop_body_parsed:
  assumes "parse_possible_json (replies i) = Inr obj" and "to_rows obj = Inr [row]"
    and "i < length names"
  shows "loop_body (demo_env replies no_failure) (demo_args ps (Some names)) r i pdf st =
    (st\<lparr>files := (files st)(posix_join (lit ''scores'') (raw_name (names ! i)) \<mapsto> Text (replies i),
                            posix_join (lit ''scores'') (json_name (names ! i)) \<mapsto> Json obj),
        all_rows := all_rows st @ [row]\<rparr>, None)"
proof -
  have ne: "replies i \<noteq> []" using assms(1) parse_empty by auto
  show ?thesis
    using assms ne
    by (simp add: loop_body_def demo_model_reply demo_district save_and_parse_def write_text_def
        demo_fields no_failure_def parse_and_record_def)
qed

lemma demo_loop_body_unparsed:
  assumes "parse_possible_json (replies i) = Inl e" and "replies i \<noteq> []" and "i < length names"
  shows "loop_body (demo_env replies no_failure) (demo_args ps (Some names)) r i pdf st =
    (st\<lparr>files := (files st)(posix_join (lit ''scores'') (raw_name (names ! i)) \<mapsto> Text (replies i))\<rparr>,
     Some e)"
  using assms
  by (simp add: loop_body_def demo_model_reply demo_district save_and_parse_def write_text_def
      demo_fields no_failure_def parse_and_record_def)

lemma demo_names:
  "raw_name (lit ''A'') = lit ''A_raw.txt''" "json_name (lit ''A'') = lit ''A.json''"
  "raw_name (lit ''Oakville'') = lit ''Oakville_raw.txt''"
  "json_name (lit ''Oakville'') = lit ''Oakville.json''"
  by (simp_all add: raw_name_def json_name_def lit_def)

lemma demo_files2:
  "posix_join (lit ''scores'') (lit ''Oakville_raw.txt'') = lit ''scores/Oakville_raw.txt''"
  "posix_join (lit ''scores'') (lit ''Oakville.json'') = lit ''scores/Oakville.json''"
  by (simp_all add: posix_join_def lit_def)

lemma demo_doc_files:
  "i < length names \<Longrightarrow>
   raw_file (demo_env replies fails) (demo_args ps (Some names))
     (district_of (demo_env replies fails) (demo_args ps (Some names)) i pdf)
   = posix_join (lit ''scores'') (raw_name (names ! i))"
  "i < length names \<Longrightarrow>
   json_file (demo_env replies fails) (demo_args ps (Some names))
     (district_of (demo_env replies fails) (demo_args ps (Some names)) i pdf)
   = posix_join (lit ''scores'') (json_name (names ! i))"
  by (simp_all add: raw_file_def json_file_def demo_district demo_fields)

lemma file_names_distinct:
  "lit ''scores/A_raw.txt'' \<noteq> lit ''scores/A.json''"
  "lit ''scores/scores.csv'' \<noteq> lit ''scores/A.json''"
  "lit ''scores/scores.csv'' \<noteq> lit ''scores/A_raw.txt''"
  "lit ''scores/scores.json'' \<noteq> lit ''scores/A.json''"
  "lit ''scores/scores.json'' \<noteq> lit ''scores/A_raw.txt''"
  "lit ''scores/scores.csv'' \<noteq> lit ''scores/scores.json''"
  "lit ''scores/C_raw.txt'' \<noteq> lit ''scores/A.json''"
  "lit ''scores/C_raw.txt'' \<noteq> lit ''scores/A_raw.txt''"
  by (simp_all add: lit_def)

text \<open>
  Three documents of districts \<open>A\<close>, \<open>A\<close> and \<open>C\<close>, the second reply not JSON: the run stops
  at the second document with the row of the first; \<open>A.json\<close> is as the first document
  wrote it, \<open>A_raw.txt\<close> holds the reply of the second, and neither a file of the third
  document nor an aggregate file exists.
\<close>

theorem parse_failure_aborts_batch_witness:
  "snd (main (demo_env (\<lambda>i. if i = Suc 0 then bad_reply else good_reply) no_failure)
          (demo_args [lit ''a.pdf'', lit ''b.pdf'', lit ''c.pdf'']
             (Some [lit ''A'', lit ''A'', lit ''C''])) Map.empty) = Some JSONDecodeError \<and>
   all_rows (fst (main (demo_env (\<lambda>i. if i = Suc 0 then bad_reply else good_reply) no_failure)
          (demo_args [lit ''a.pdf'', lit ''b.pdf'', lit ''c.pdf'']
             (Some [lit ''A'', lit ''A'', lit ''C''])) Map.empty))
     = [[(lit ''district'', JStr (lit ''A''))]] \<and>
   files (fst (main (demo_env (\<lambda>i. if i = Suc 0 then bad_reply else good_reply) no_failure)
          (demo_args [lit ''a.pdf'', lit ''b.pdf'', lit ''c.pdf'']
             (Some [lit ''A'', lit ''A'', lit ''C''])) Map.empty)) (lit ''scores/A.json'')
     = Some (Json good_obj) \<and>
   files (fst (main (demo_env (\<lambda>i. if i = Suc 0 then bad_reply else good_reply) no_failure)
          (demo_args [lit ''a.pdf'', lit ''b.pdf'', lit ''c.pdf'']
             (Some [lit ''A'', lit ''A'', lit ''C''])) Map.empty)) (lit ''scores/A_raw.txt'')
     = Some (Text bad_reply) \<and>
   files (fst (main (demo_env (\<lambda>i. if i = Suc 0 then bad_reply else good_reply) no_failure)
          (demo_args [lit ''a.pdf'', lit ''b.pdf'', lit ''c.pdf'']
             (Some [lit ''A'', lit ''A'', lit ''C''])) Map.empty)) (lit ''scores/C_raw.txt'')
     = None \<and>
   files (fst (main (demo_env (\<lambda>i. if i = Suc 0 then bad_reply else good_reply) no_failure)
          (demo_args [lit ''a.pdf'', lit ''b.pdf'', lit ''c.pdf'']
             (Some [lit ''A'', lit ''A'', lit ''C''])) Map.empty)) (lit ''scores/scores.csv'')
     = None \<and>
   files (fst (main (demo_env (\<lambda>i. if i = Suc 0 then bad_reply else good_reply) no_failure)
          (demo_args [lit ''a.pdf'', lit ''b.pdf'', lit ''c.pdf'']
             (Some [lit ''A'', lit ''A'', lit ''C''])) Map.empty)) (lit ''scores/scores.json'')
     = None"
proof -
  let ?replies = "\<lambda>i::nat. if i = Suc 0 then bad_reply else good_reply"
  let ?env = "demo_env ?replies no_failure"
  let ?names = "[lit ''A'', lit ''A'', lit ''C'']"
  let ?a = "demo_args [lit ''a.pdf'', lit ''b.pdf'', lit ''c.pdf''] (Some ?names)"
  let ?st1 = "\<lparr>files = [lit ''scores/A_raw.txt'' \<mapsto> Text good_reply,
                          lit ''scores/A.json'' \<mapsto> Json good_obj],
               all_rows = [[(lit ''district'', JStr (lit ''A''))]]\<rparr>"
  have b0: "loop_body ?env ?a (lit ''rubric'') 0 (lit ''a.pdf'') \<lparr>files = Map.empty, all_rows = []\<rparr>
      = (?st1, None)"
    using demo_loop_body_parsed[of ?replies 0 good_obj "[(lit ''district'', JStr (lit ''A''))]" ?names
        "[lit ''a.pdf'', lit ''b.pdf'', lit ''c.pdf'']" "lit ''rubric''" "lit ''a.pdf''"
        "\<lparr>files = Map.empty, all_rows = []\<rparr>"]
    by (simp add: parse_good to_rows_good demo_names demo_files)
  have l: "loop ?env ?a (lit ''rubric'') 0 [lit ''a.pdf''] \<lparr>files = Map.empty, all_rows = []\<rparr>
      = (?st1, None)"
    unfolding loop_single by (rule b0)
  have f: "raw_file ?env ?a (district_of ?env ?a (Suc 0) (lit ''b.pdf''))
      = lit ''scores/A_raw.txt''"
    using demo_doc_files(1)[of 1 ?names ?replies no_failure _ "lit ''b.pdf''"]
    by (simp add: demo_names demo_files)
  have h1: "api_key ?env = Some (lit ''key'')" by (simp add: demo_fields)
  have h2: "lit ''key'' \<noteq> []" by (simp add: lit_def)
  have h3: "read_text ?env (rubric ?a) = Inr (lit ''rubric'')" by (simp add: demo_fields)
  have h4: "mkdir ?env (out ?a) = None" by (simp add: demo_fields)
  have h5: "pdfs ?a = [lit ''a.pdf''] @ lit ''b.pdf'' # [lit ''c.pdf'']" by (simp add: demo_fields)
  have h7: "model_reply ?env ?a (lit ''rubric'') (length [lit ''a.pdf'']) (lit ''b.pdf'') = Inr bad_reply"
    by (simp add: demo_model_reply)
  have h8: "write_fails ?env
      (raw_file ?env ?a (district_of ?env ?a (length [lit ''a.pdf'']) (lit ''b.pdf'')))
      (Text (if bad_reply \<noteq> [] then bad_reply else lit ''<EMPTY_RESPONSE>'')) = None"
    by (simp add: demo_fields no_failure_def)
  note t = parse_failure_aborts_batch[OF h1 h2 h3 h4 h5 l h7 h8 parse_bad]
  have m: "main ?env ?a Map.empty =
      (?st1\<lparr>files := (files ?st1)(lit ''scores/A_raw.txt'' \<mapsto> Text bad_reply)\<rparr>,
       Some JSONDecodeError)"
    using t[THEN conjunct1] by (simp add: f replies_nonempty)
  show ?thesis
    unfolding m using file_names_distinct by simp
qed


text \<open>
  Claim C6 as stated fails: two documents with the same district \<open>A\<close>, the first reply
  well-formed and the second not. The raw file that the first document wrote is replaced
  by the reply of the second before the run stops.
\<close>

theorem parse_failure_aborts_batch_counterexample:
  "files (fst (loop (demo_env (\<lambda>i. if i = Suc 0 then bad_reply else good_reply) no_failure)
                 (demo_args [lit ''a.pdf'', lit ''b.pdf''] (Some [lit ''A'', lit ''A'']))
                 (lit ''rubric'') 0 [lit ''a.pdf''] \<lparr>files = Map.empty, all_rows = []\<rparr>))
     (lit ''scores/A_raw.txt'') = Some (Text good_reply) \<and>
   snd (loop (demo_env (\<lambda>i. if i = Suc 0 then bad_reply else good_reply) no_failure)
                 (demo_args [lit ''a.pdf'', lit ''b.pdf''] (Some [lit ''A'', lit ''A'']))
                 (lit ''rubric'') 0 [lit ''a.pdf''] \<lparr>files = Map.empty, all_rows = []\<rparr>) = None \<and>
   snd (main (demo_env (\<lambda>i. if i = Suc 0 then bad_reply else good_reply) no_failure)
          (demo_args [lit ''a.pdf'', lit ''b.pdf''] (Some [lit ''A'', lit ''A''])) Map.empty)
     = Some JSONDecodeError \<and>
   files (fst (main (demo_env (\<lambda>i. if i = Suc 0 then bad_reply else good_reply) no_failure)
          (demo_args [lit ''a.pdf'', lit ''b.pdf''] (Some [lit ''A'', lit ''A''])) Map.empty))
     (lit ''scores/A_raw.txt'') = Some (Text bad_reply) \<and>
   good_reply \<noteq> bad_reply"
proof -
  let ?replies = "\<lambda>i::nat. if i = Suc 0 then bad_reply else good_reply"
  let ?env = "demo_env ?replies no_failure"
  let ?names = "[lit ''A'', lit ''A'']"
  let ?a = "demo_args [lit ''a.pdf'', lit ''b.pdf''] (Some ?names)"
  let ?st0 = "\<lparr>files = Map.empty, all_rows = []\<rparr>"
  let ?st1 = "\<lparr>files = [lit ''scores/A_raw.txt'' \<mapsto> Text good_reply,
                          lit ''scores/A.json'' \<mapsto> Json good_obj],
               all_rows = [[(lit ''district'', JStr (lit ''A''))]]\<rparr>"
  have b0: "loop_body ?env ?a (lit ''rubric'') 0 (lit ''a.pdf'') ?st0 = (?st1, None)"
    using demo_loop_body_parsed[of ?replies 0 good_obj "[(lit ''district'', JStr (lit ''A''))]" ?names
        "[lit ''a.pdf'', lit ''b.pdf'']" "lit ''rubric''" "lit ''a.pdf''" ?st0]
    by (simp add: parse_good to_rows_good demo_names demo_files)
  have b1: "loop_body ?env ?a (lit ''rubric'') (Suc 0) (lit ''b.pdf'') ?st1
      = (?st1\<lparr>files := (files ?st1)(lit ''scores/A_raw.txt'' \<mapsto> Text bad_reply)\<rparr>,
         Some JSONDecodeError)"
    using demo_loop_body_unparsed[of ?replies "Suc 0" JSONDecodeError ?names
        "[lit ''a.pdf'', lit ''b.pdf'']" "lit ''rubric''" "lit ''b.pdf''" ?st1]
    by (simp add: parse_bad replies_nonempty demo_names demo_files)
  have l: "loop ?env ?a (lit ''rubric'') 0 [lit ''a.pdf''] ?st0 = (?st1, None)"
    unfolding loop_single by (rule b0)
  have m: "main ?env ?a Map.empty
      = (?st1\<lparr>files := (files ?st1)(lit ''scores/A_raw.txt'' \<mapsto> Text bad_reply)\<rparr>,
         Some JSONDecodeError)"
    by (simp add: main_def demo_fields lit_def[of "''key''"] b0 b1)
  show ?thesis
    unfolding l m using replies_nonempty(4) file_names_distinct(1) by simp
qed

text \<open>
  Two documents of district \<open>A\<close> with different well-formed replies: the files hold the
  first reply and object after the first document, the second after the second, and the
  accumulator has two rows.
\<close>

theorem same_district_overwrites_witness:
  "snd (main (demo_env (\<lambda>i. if i = Suc 0 then good_reply2 else good_reply) no_failure)
          (demo_args [lit ''a.pdf'', lit ''b.pdf''] (Some [lit ''A'', lit ''A''])) Map.empty)
     = None \<and>
   length (all_rows (fst (main (demo_env (\<lambda>i. if i = Suc 0 then good_reply2 else good_reply) no_failure)
          (demo_args [lit ''a.pdf'', lit ''b.pdf''] (Some [lit ''A'', lit ''A''])) Map.empty)))
     = 2 \<and>
   files (fst (loop (demo_env (\<lambda>i. if i = Suc 0 then good_reply2 else good_reply) no_failure)
                 (demo_args [lit ''a.pdf'', lit ''b.pdf''] (Some [lit ''A'', lit ''A'']))
                 (lit ''rubric'') 0 [lit ''a.pdf''] \<lparr>files = Map.empty, all_rows = []\<rparr>))
     (lit ''scores/A_raw.txt'') = Some (Text good_reply) \<and>
   files (fst (loop (demo_env (\<lambda>i. if i = Suc 0 then good_reply2 else good_reply) no_failure)
                 (demo_args [lit ''a.pdf'', lit ''b.pdf''] (Some [lit ''A'', lit ''A'']))
                 (lit ''rubric'') 0 [lit ''a.pdf''] \<lparr>files = Map.empty, all_rows = []\<rparr>))
     (lit ''scores/A.json'') = Some (Json good_obj) \<and>
   files (fst (loop (demo_env (\<lambda>i. if i = Suc 0 then good_reply2 else good_reply) no_failure)
                 (demo_args [lit ''a.pdf'', lit ''b.pdf''] (Some [lit ''A'', lit ''A'']))
                 (lit ''rubric'') 0 [lit ''a.pdf'', lit ''b.pdf'']
                 \<lparr>files = Map.empty, all_rows = []\<rparr>))
     (lit ''scores/A_raw.txt'') = Some (Text good_reply2) \<and>
   files (fst (loop (demo_env (\<lambda>i. if i = Suc 0 then good_reply2 else good_reply) no_failure)
                 (demo_args [lit ''a.pdf'', lit ''b.pdf''] (Some [lit ''A'', lit ''A'']))
                 (lit ''rubric'') 0 [lit ''a.pdf'', lit ''b.pdf'']
                 \<lparr>files = Map.empty, all_rows = []\<rparr>))
     (lit ''scores/A.json'') = Some (Json good_obj2)"
proof -
  let ?replies = "\<lambda>i::nat. if i = Suc 0 then good_reply2 else good_reply"
  let ?env = "demo_env ?replies no_failure"
  let ?names = "[lit ''A'', lit ''A'']"
  let ?ps = "[lit ''a.pdf'', lit ''b.pdf'']"
  let ?a = "demo_args ?ps (Some ?names)"
  let ?st0 = "\<lparr>files = Map.empty, all_rows = []\<rparr>"
  have b0: "loop_body ?env ?a (lit ''rubric'') 0 (lit ''a.pdf'') st
      = (st\<lparr>files := (files st)(lit ''scores/A_raw.txt'' \<mapsto> Text good_reply,
                                lit ''scores/A.json'' \<mapsto> Json good_obj),
            all_rows := all_rows st @ [[(lit ''district'', JStr (lit ''A''))]]\<rparr>, None)" for st
    using demo_loop_body_parsed[of ?replies 0 good_obj "[(lit ''district'', JStr (lit ''A''))]" ?names
        ?ps "lit ''rubric''" "lit ''a.pdf''" st]
    by (simp add: parse_good to_rows_good demo_names demo_files)
  have b1: "loop_body ?env ?a (lit ''rubric'') (Suc 0) (lit ''b.pdf'') st
      = (st\<lparr>files := (files st)(lit ''scores/A_raw.txt'' \<mapsto> Text good_reply2,
                                lit ''scores/A.json'' \<mapsto> Json good_obj2),
            all_rows := all_rows st @ [[(lit ''district'', JStr (lit ''A2''))]]\<rparr>, None)" for st
    using demo_loop_body_parsed[of ?replies "Suc 0" good_obj2 "[(lit ''district'', JStr (lit ''A2''))]"
        ?names ?ps "lit ''rubric''" "lit ''b.pdf''" st]
    by (simp add: parse_good2 to_rows_good2 demo_names demo_files)
  have s: "snd (main ?env ?a Map.empty) = None"
    by (simp add: main_def demo_fields lit_def[of "''key''"] b0 b1 write_aggregate_def
        write_text_def no_failure_def)
  then have m: "main ?env ?a Map.empty = (fst (main ?env ?a Map.empty), None)"
    by (simp add: prod_eq_iff)
  have d: "district_of ?env ?a 0 (pdfs ?a ! 0) = district_of ?env ?a 1 (pdfs ?a ! 1)"
    by (simp add: demo_district)
  have j: "(1::nat) < length (pdfs ?a)" by (simp add: demo_fields)
  note t = same_district_overwrites[OF m zero_less_one j d]
  have rf: "raw_file ?env ?a (district_of ?env ?a (Suc 0) (lit ''b.pdf'')) = lit ''scores/A_raw.txt''"
    using demo_doc_files(1)[of 1 ?names ?replies no_failure ?ps "lit ''b.pdf''"]
    by (simp add: demo_names demo_files)
  have jf: "json_file ?env ?a (district_of ?env ?a (Suc 0) (lit ''b.pdf'')) = lit ''scores/A.json''"
    using demo_doc_files(2)[of 1 ?names ?replies no_failure ?ps "lit ''b.pdf''"]
    by (simp add: demo_names demo_files)
  show ?thesis
    using t s file_names_distinct(1)
    by (simp add: demo_fields demo_model_reply parse_good parse_good2 rf jf)
qed

text \<open>A run over one document whose reply has the seven categories.\<close>

lemma parse_full: "parse_possible_json full_reply_text = Inr full_reply"
  by (simp add: full_reply_text_def full_reply_def categories_def parse_possible_json_def strip_def
      strip_fences_def startswith_def endswith_def isspace_def json_loads_def lit_def json_ws_def
      match_number_def match_int_def match_frac_def match_exp_def is_digit_def int_of_digits_def)



lemma full_reply_nonempty: "full_reply_text \<noteq> []"
  by (simp add: full_reply_text_def lit_def)

theorem accumulated_rows_columns_witness:
  "snd (main (demo_env (\<lambda>i. full_reply_text) no_failure)
          (demo_args [lit ''a.pdf''] (Some [lit ''Oakville''])) Map.empty) = None \<and>
   length (all_rows (fst (main (demo_env (\<lambda>i. full_reply_text) no_failure)
          (demo_args [lit ''a.pdf''] (Some [lit ''Oakville''])) Map.empty))) = 1 \<and>
   to_rows full_reply = Inr [all_rows (fst (main (demo_env (\<lambda>i. full_reply_text) no_failure)
          (demo_args [lit ''a.pdf''] (Some [lit ''Oakville''])) Map.empty)) ! 0] \<and>
   set (map fst (all_rows (fst (main (demo_env (\<lambda>i. full_reply_text) no_failure)
          (demo_args [lit ''a.pdf''] (Some [lit ''Oakville''])) Map.empty)) ! 0))
     = set (lit ''district'' # columns_of categories)"
proof -
  let ?env = "demo_env (\<lambda>i. full_reply_text) no_failure"
  let ?a = "demo_args [lit ''a.pdf''] (Some [lit ''Oakville''])"
  let ?row = "(lit ''district'', JStr (lit ''Oakville'')) #
     concat (map (\<lambda>k. [(k, JInt 2), (k @ why, JStr (lit ''ok''))]) categories)"
  have b0: "loop_body ?env ?a (lit ''rubric'') 0 (lit ''a.pdf'') st
      = (st\<lparr>files := (files st)(lit ''scores/Oakville_raw.txt'' \<mapsto> Text full_reply_text,
                                lit ''scores/Oakville.json'' \<mapsto> Json full_reply),
            all_rows := all_rows st @ [?row]\<rparr>, None)" for st
    using demo_loop_body_parsed[of "\<lambda>i. full_reply_text" 0 full_reply ?row "[lit ''Oakville'']"
        "[lit ''a.pdf'']" "lit ''rubric''" "lit ''a.pdf''" st]
    by (simp add: parse_full to_rows_full_reply demo_names demo_files2)
  have s: "snd (main ?env ?a Map.empty) = None"
    by (simp add: main_def demo_fields lit_def[of "''key''"] b0 write_aggregate_def
        write_text_def no_failure_def)
  have r: "all_rows (fst (main ?env ?a Map.empty)) = [?row]"
    by (simp add: main_def demo_fields lit_def[of "''key''"] b0 write_aggregate_def
        write_text_def no_failure_def)
  have m: "main ?env ?a Map.empty = (fst (main ?env ?a Map.empty), None)"
    using s by (simp add: prod_eq_iff)
  have k: "0 < length (all_rows (fst (main ?env ?a Map.empty)))" by (simp add: r)
  note t = accumulated_rows_columns[OF m k]
  have c: "set (map fst (all_rows (fst (main ?env ?a Map.empty)) ! 0))
     = set (lit ''district'' # columns_of categories)"
    using t by (auto simp: demo_model_reply demo_fields parse_full scores_keys_full_reply)
  show ?thesis using s r c to_rows_full_reply by simp
qed


end
